theory Spec2Isabelle
  imports Main "HOL-Library.AList" "HOL-Library.Sublist"
begin

section \<open>The file system seen by \<open>electrum/migration.py\<close>\<close>

text \<open>
  A path is the list of its components below the root: \<open>/home/u/.electrum\<close> is
  \<open>[''home'', ''u'', ''.electrum'']\<close>. \<open>os.path.join p f\<close> is \<open>p @ [f]\<close>,
  \<open>os.path.dirname\<close> is \<open>butlast\<close>, \<open>os.path.basename\<close> is \<open>last\<close>.

  The file system is a tree. A regular file holds its bytes; a socket holds nothing; a
  directory holds its entries in the order \<open>os.scandir\<close> lists them. \<open>Dangling\<close> is a
  symbolic link whose target lies in a directory that does not exist: the entry
  \<open>os.stat\<close> fails on, and that can be opened neither for reading nor for writing.
  Valid symbolic links, named pipes, devices, hard links, permissions and mount points
  are not modelled.
\<close>

type_synonym path = "string list"

datatype node = File string | Sock | Dangling | Dir "(string \<times> node) list"

datatype exn =
    FileNotFoundError path
  | NotADirectoryError path
  | IsADirectoryError path
  | FileExistsError path
  | OSError path
  | SameFileError path path
  | Error_list "(path \<times> path) list"
  | Error_exists path
  | Error_itself path path
  | RecursionError
  | JSONDecodeError
  | UnicodeDecodeError
  | AttributeError
  | KeyError string
  | TypeError
  | Exception string

text \<open>
  The classes of Python's exception hierarchy the source distinguishes: \<open>OSError\<close> with
  its subclasses, and \<open>shutil.Error\<close> (itself an \<open>OSError\<close>) with its subclass
  \<open>SameFileError\<close>. \<open>OSError p\<close> stands for the remaining errno values (ENXIO on
  opening a socket, EINVAL, ENOTEMPTY, EISDIR, EBUSY of \<open>rename\<close>).
\<close>

fun is_shutil_Error :: "exn \<Rightarrow> bool" where
  "is_shutil_Error (SameFileError s d) = True"
| "is_shutil_Error (Error_list es) = True"
| "is_shutil_Error (Error_exists p) = True"
| "is_shutil_Error (Error_itself s d) = True"
| "is_shutil_Error e = False"

fun is_OSError :: "exn \<Rightarrow> bool" where
  "is_OSError (FileNotFoundError p) = True"
| "is_OSError (NotADirectoryError p) = True"
| "is_OSError (IsADirectoryError p) = True"
| "is_OSError (FileExistsError p) = True"
| "is_OSError (OSError p) = True"
| "is_OSError e = is_shutil_Error e"

fun lookup :: "node \<Rightarrow> path \<Rightarrow> node option" where
  "lookup n [] = Some n"
| "lookup (Dir es) (c # p) = (case map_of es c of None \<Rightarrow> None | Some m \<Rightarrow> lookup m p)"
| "lookup n (c # p) = None"

text \<open>
  \<open>put p n t\<close> stores \<open>n\<close> at \<open>p\<close> when the parent of \<open>p\<close> is a directory of \<open>t\<close>: in the
  place of the entry of that name, or behind the last entry. \<open>remove p t\<close> deletes the
  entry at \<open>p\<close>. The root is never replaced or removed.
\<close>

fun put :: "path \<Rightarrow> node \<Rightarrow> node \<Rightarrow> node" where
  "put [] n t = t"
| "put [c] n (Dir es) = Dir (AList.update c n es)"
| "put (c # p) n (Dir es) =
     (case map_of es c of None \<Rightarrow> Dir es | Some m \<Rightarrow> Dir (AList.update c (put p n m) es))"
| "put (c # p) n t = t"

fun remove :: "path \<Rightarrow> node \<Rightarrow> node" where
  "remove [] t = t"
| "remove [c] (Dir es) = Dir (AList.delete c es)"
| "remove (c # p) (Dir es) =
     (case map_of es c of None \<Rightarrow> Dir es | Some m \<Rightarrow> Dir (AList.update c (remove p m) es))"
| "remove (c # p) t = t"

fun is_dir :: "node option \<Rightarrow> bool" where
  "is_dir (Some (Dir es)) = True"
| "is_dir n = False"

text \<open>\<open>os.path.exists\<close> and \<open>os.path.isdir\<close> follow symbolic links: a dangling link does not exist.\<close>

definition os_path_exists :: "node \<Rightarrow> path \<Rightarrow> bool" where
  "os_path_exists fs p = (case lookup fs p of None \<Rightarrow> False | Some Dangling \<Rightarrow> False | Some n \<Rightarrow> True)"

definition os_path_isdir :: "node \<Rightarrow> path \<Rightarrow> bool" where
  "os_path_isdir fs p = is_dir (lookup fs p)"

definition os_path_islink :: "node \<Rightarrow> path \<Rightarrow> bool" where
  "os_path_islink fs p = (lookup fs p = Some Dangling)"

text \<open>\<open>open(p, 'rb').read()\<close>: the bytes of a regular file.\<close>

definition open_read :: "node \<Rightarrow> path \<Rightarrow> exn + string" where
  "open_read fs p =
     (case lookup fs p of
        Some (File bytes) \<Rightarrow> Inr bytes
      | Some (Dir es) \<Rightarrow> Inl (IsADirectoryError p)
      | Some Sock \<Rightarrow> Inl (OSError p)
      | Some Dangling \<Rightarrow> Inl (FileNotFoundError p)
      | None \<Rightarrow> Inl (FileNotFoundError p))"

text \<open>
  \<open>open(p, 'w')\<close> followed by one \<open>write\<close>: creates or truncates the regular file at \<open>p\<close>.
  The parent must be a directory; a directory, a socket or a dangling link at \<open>p\<close> cannot
  be opened for writing.
\<close>

definition open_write :: "path \<Rightarrow> string \<Rightarrow> node \<Rightarrow> (exn + unit) \<times> node" where
  "open_write p bytes fs =
     (case lookup fs p of
        Some (Dir ds) \<Rightarrow> (Inl (IsADirectoryError p), fs)
      | Some Sock \<Rightarrow> (Inl (OSError p), fs)
      | Some Dangling \<Rightarrow> (Inl (FileNotFoundError p), fs)
      | Some (File old) \<Rightarrow> (Inr (), put p (File bytes) fs)
      | None \<Rightarrow>
          (case lookup fs (butlast p) of
             Some (Dir es) \<Rightarrow> (Inr (), put p (File bytes) fs)
           | Some Dangling \<Rightarrow> (Inl (FileNotFoundError p), fs)
           | Some n \<Rightarrow> (Inl (NotADirectoryError p), fs)
           | None \<Rightarrow> (Inl (FileNotFoundError p), fs)))"

section \<open>The fingerprint detector\<close>

text \<open>
  What \<open>json.load\<close> returns: Python's \<open>dict\<close>, \<open>list\<close>, \<open>str\<close>, number, \<open>bool\<close> and
  \<open>None\<close>. A \<open>dict\<close> is the list of its items, read with \<open>map_of\<close>.
\<close>

datatype json = JNull | JBool bool | JNum int | JStr string | JArr "json list" | JObj "(string \<times> json) list"

text \<open>
  The file is opened with \<open>encoding='utf-8'\<close>, so reading it decodes the bytes first:
  \<open>utf8_valid\<close> is the well-formedness table of RFC 3629 that the strict decoder applies,
  and a byte string outside it raises \<open>UnicodeDecodeError\<close>. The JSON grammar itself is the
  standard library's: \<open>loads\<close>, a parameter, is \<open>json.loads\<close> on the decoded text, \<open>None\<close> where
  it raises \<open>JSONDecodeError\<close>.
\<close>

definition cont :: "char \<Rightarrow> bool" where
  "cont c = (128 \<le> (of_char c :: nat) \<and> (of_char c :: nat) \<le> 191)"

definition in_range :: "nat \<Rightarrow> nat \<Rightarrow> char \<Rightarrow> bool" where
  "in_range lo hi c = (lo \<le> (of_char c :: nat) \<and> (of_char c :: nat) \<le> hi)"

fun utf8_valid :: "string \<Rightarrow> bool" where
  "utf8_valid [] = True"
| "utf8_valid (a # s) =
     (if in_range 0 127 a then utf8_valid s
      else if in_range 194 223 a then
        (case s of b # s' \<Rightarrow> cont b \<and> utf8_valid s' | _ \<Rightarrow> False)
      else if in_range 224 239 a then
        (case s of b # c # s' \<Rightarrow>
           (if in_range 224 224 a then in_range 160 191 b
            else if in_range 237 237 a then in_range 128 159 b
            else cont b) \<and> cont c \<and> utf8_valid s'
         | _ \<Rightarrow> False)
      else if in_range 240 244 a then
        (case s of b # c # d # s' \<Rightarrow>
           (if in_range 240 240 a then in_range 144 191 b
            else if in_range 244 244 a then in_range 128 143 b
            else cont b) \<and> cont c \<and> cont d \<and> utf8_valid s'
         | _ \<Rightarrow> False)
      else False)"

definition json_load :: "(string \<Rightarrow> json option) \<Rightarrow> string \<Rightarrow> exn + json" where
  "json_load loads bytes =
     (if \<not> utf8_valid bytes then Inl UnicodeDecodeError
      else case loads bytes of None \<Rightarrow> Inl JSONDecodeError | Some v \<Rightarrow> Inr v)"

text \<open>\<open>x.get(k, d)\<close>: only a \<open>dict\<close> has the attribute \<open>get\<close>.\<close>

fun py_get :: "json \<Rightarrow> string \<Rightarrow> json \<Rightarrow> exn + json" where
  "py_get (JObj items) k d = Inr (case map_of items k of Some v \<Rightarrow> v | None \<Rightarrow> d)"
| "py_get v k d = Inl AttributeError"

definition FACT_MAINNET_GENESIS :: string where
  "FACT_MAINNET_GENESIS = ''79cb40f8075b0e3dc2bc468c5ce2a7acbe0afd36c6c3d3a134ea692edac7de49''"

definition FACT_TESTNET_GENESIS :: string where
  "FACT_TESTNET_GENESIS = ''550bbf0a444d9f92189f067dd225f5b8a5d92587ebc2e8398d143236072580af''"

text \<open>
  The body of the \<open>with\<close> block of \<open>is_factwallet_data\<close>: \<open>Inr True\<close> is its \<open>return True\<close>,
  \<open>Inr False\<close> is falling out of the block.
\<close>

definition read_fingerprint :: "(string \<Rightarrow> json option) \<Rightarrow> node \<Rightarrow> path \<Rightarrow> exn + bool" where
  "read_fingerprint loads fs config_path =
     (case open_read fs config_path of
        Inl e \<Rightarrow> Inl e
      | Inr bytes \<Rightarrow>
         (case json_load loads bytes of
            Inl e \<Rightarrow> Inl e
          | Inr config \<Rightarrow>
             (case py_get config ''blockchain_preferred_block'' (JObj []) of
                Inl e \<Rightarrow> Inl e
              | Inr blockchain_preferred_block \<Rightarrow>
                 (case py_get blockchain_preferred_block ''hash'' JNull of
                    Inl e \<Rightarrow> Inl e
                  | Inr block_hash \<Rightarrow>
                      Inr (block_hash \<in> set [JStr FACT_MAINNET_GENESIS, JStr FACT_TESTNET_GENESIS])))))"

definition is_factwallet_data :: "(string \<Rightarrow> json option) \<Rightarrow> node \<Rightarrow> path \<Rightarrow> exn + bool" where
  "is_factwallet_data loads fs directory =
     (if \<not> os_path_exists fs directory then Inr False
      else if os_path_exists fs (directory @ [''config'']) then
        (case read_fingerprint loads fs (directory @ [''config'']) of
           Inr True \<Rightarrow> Inr True
         | Inr False \<Rightarrow> Inr False
         | Inl e \<Rightarrow> if e = JSONDecodeError \<or> is_OSError e then Inr False else Inl e)
      else Inr False)"

section \<open>The operating system's calls\<close>

text \<open>\<open>os.mkdir\<close>: the path must be free and its parent a directory.\<close>

definition os_mkdir :: "path \<Rightarrow> node \<Rightarrow> (exn + unit) \<times> node" where
  "os_mkdir p fs =
     (case lookup fs p of
        Some n \<Rightarrow> (Inl (FileExistsError p), fs)
      | None \<Rightarrow>
          (case lookup fs (butlast p) of
             Some (Dir es) \<Rightarrow> (Inr (), put p (Dir []) fs)
           | Some Dangling \<Rightarrow> (Inl (FileNotFoundError p), fs)
           | Some n \<Rightarrow> (Inl (NotADirectoryError p), fs)
           | None \<Rightarrow> (Inl (FileNotFoundError p), fs)))"

text \<open>
  \<open>os.makedirs(name, exist_ok=exist_ok)\<close>: when the parent does not exist it is made first,
  a \<open>FileExistsError\<close> of that call being passed over; then \<open>mkdir(name)\<close>, whose
  \<open>OSError\<close> is passed over when \<open>exist_ok\<close> holds and \<open>name\<close> is a directory.
\<close>

function makedirs :: "path \<Rightarrow> bool \<Rightarrow> node \<Rightarrow> (exn + unit) \<times> node" where
  "makedirs p exist_ok fs =
     (case (if p \<noteq> [] \<and> \<not> os_path_exists fs (butlast p)
            then (case makedirs (butlast p) exist_ok fs of
                    (Inl (FileExistsError q), fs') \<Rightarrow> (Inr (), fs')
                  | r \<Rightarrow> r)
            else (Inr (), fs)) of
        (Inl e, fs1) \<Rightarrow> (Inl e, fs1)
      | (Inr u, fs1) \<Rightarrow>
          (case os_mkdir p fs1 of
             (Inl e, fs2) \<Rightarrow>
               if \<not> exist_ok \<or> \<not> os_path_isdir fs2 p then (Inl e, fs2) else (Inr (), fs2)
           | (Inr u, fs2) \<Rightarrow> (Inr (), fs2)))"
  by pat_completeness auto
termination
  by (relation "measure (\<lambda>(p, exist_ok, fs). length p)") auto

declare makedirs.simps [simp del]

text \<open>
  \<open>os.rename\<close> on one file system (POSIX \<open>rename(2)\<close>): the source must exist and the
  parent of the destination be a directory; a directory is not moved below itself; a
  directory replaces only an empty directory, and a file, socket or link replaces only
  one of those.
\<close>

definition os_rename :: "path \<Rightarrow> path \<Rightarrow> node \<Rightarrow> (exn + unit) \<times> node" where
  "os_rename src dst fs =
     (case lookup fs src of
        None \<Rightarrow> (Inl (FileNotFoundError src), fs)
      | Some n \<Rightarrow>
          if src = [] \<or> dst = [] then (Inl (OSError src), fs)
          else (case lookup fs (butlast dst) of
                  None \<Rightarrow> (Inl (FileNotFoundError dst), fs)
                | Some Dangling \<Rightarrow> (Inl (FileNotFoundError dst), fs)
                | Some (File bytes) \<Rightarrow> (Inl (NotADirectoryError dst), fs)
                | Some Sock \<Rightarrow> (Inl (NotADirectoryError dst), fs)
                | Some (Dir ps) \<Rightarrow>
                    if src = dst then (Inr (), fs)
                    else if prefix src dst \<or> prefix dst src then (Inl (OSError src), fs)
                    else (case lookup fs dst of
                            None \<Rightarrow> (Inr (), put dst n (remove src fs))
                          | Some (Dir ds) \<Rightarrow>
                              if \<not> is_dir (Some n) then (Inl (IsADirectoryError dst), fs)
                              else if ds \<noteq> [] then (Inl (OSError dst), fs)
                              else (Inr (), put dst n (remove src fs))
                          | Some m \<Rightarrow>
                              if is_dir (Some n) then (Inl (NotADirectoryError dst), fs)
                              else (Inr (), put dst n (remove src fs)))))"

text \<open>\<open>os.symlink(linkto, p)\<close> for the target of a dangling link: the path must be free.\<close>

definition os_symlink :: "path \<Rightarrow> node \<Rightarrow> (exn + unit) \<times> node" where
  "os_symlink p fs =
     (case lookup fs p of
        Some n \<Rightarrow> (Inl (FileExistsError p), fs)
      | None \<Rightarrow>
          (case lookup fs (butlast p) of
             Some (Dir es) \<Rightarrow> (Inr (), put p Dangling fs)
           | Some Dangling \<Rightarrow> (Inl (FileNotFoundError p), fs)
           | Some n \<Rightarrow> (Inl (NotADirectoryError p), fs)
           | None \<Rightarrow> (Inl (FileNotFoundError p), fs)))"

definition os_unlink :: "path \<Rightarrow> node \<Rightarrow> (exn + unit) \<times> node" where
  "os_unlink p fs =
     (case lookup fs p of
        None \<Rightarrow> (Inl (FileNotFoundError p), fs)
      | Some (Dir es) \<Rightarrow> (Inl (IsADirectoryError p), fs)
      | Some n \<Rightarrow> (Inr (), remove p fs))"

text \<open>\<open>os.stat(p).st_mode\<close>, as far as \<open>stat.S_ISSOCK\<close> reads it; it fails on a dangling link.\<close>

datatype st_mode = S_IFREG | S_IFSOCK | S_IFDIR

definition os_stat :: "node \<Rightarrow> path \<Rightarrow> exn + st_mode" where
  "os_stat fs p =
     (case lookup fs p of
        None \<Rightarrow> Inl (FileNotFoundError p)
      | Some Dangling \<Rightarrow> Inl (FileNotFoundError p)
      | Some (File bytes) \<Rightarrow> Inr S_IFREG
      | Some Sock \<Rightarrow> Inr S_IFSOCK
      | Some (Dir es) \<Rightarrow> Inr S_IFDIR)"

definition S_ISSOCK :: "st_mode \<Rightarrow> bool" where
  "S_ISSOCK m = (m = S_IFSOCK)"

section \<open>\<open>shutil\<close>\<close>

text \<open>
  \<open>shutil.copyfile\<close>: the same file is refused; the source is opened for reading before
  the destination is opened for writing. \<open>shutil.copy2\<close> copies into a destination that is
  a directory, under the source's name.
\<close>

definition copyfile :: "path \<Rightarrow> path \<Rightarrow> node \<Rightarrow> (exn + unit) \<times> node" where
  "copyfile src dst fs =
     (if src = dst \<and> os_path_exists fs src then (Inl (SameFileError src dst), fs)
      else (case open_read fs src of
              Inl e \<Rightarrow> (Inl e, fs)
            | Inr bytes \<Rightarrow> open_write dst bytes fs))"

definition copy2 :: "path \<Rightarrow> path \<Rightarrow> node \<Rightarrow> (exn + unit) \<times> node" where
  "copy2 src dst fs =
     copyfile src (if os_path_isdir fs dst \<and> src \<noteq> [] then dst @ [last src] else dst) fs"

text \<open>
  The \<open>ignore\<close> callback of \<open>copytree\<close> gets the directory and the names listed in it; it reads
  the file system through \<open>os.stat\<close>.
\<close>

type_synonym ignore = "node \<Rightarrow> path \<Rightarrow> string list \<Rightarrow> string list"

text \<open>
  What \<open>except Error as err: errors.extend(err.args[0])\<close> adds to the list of errors: the
  list a nested \<open>copytree\<close> raised, and for the message of a \<open>SameFileError\<close> one entry.
\<close>

fun error_args :: "exn \<Rightarrow> path \<Rightarrow> path \<Rightarrow> (path \<times> path) list" where
  "error_args (Error_list es) s d = es"
| "error_args e s d = [(s, d)]"

text \<open>
  The loop of \<open>shutil._copytree\<close> over the entries listed in \<open>src\<close>. \<open>rec\<close> is the recursive
  call of \<open>copytree\<close>. The kind of an entry is the one the listing saw; the copy itself
  reads the file system as it is by then. A \<open>shutil.Error\<close> or an \<open>OSError\<close> is collected
  and the loop goes on; any other exception ends it.
\<close>

fun copy_loop ::
  "(path \<Rightarrow> path \<Rightarrow> node \<Rightarrow> (exn + unit) \<times> node) \<Rightarrow> bool \<Rightarrow> string list \<Rightarrow> path \<Rightarrow> path \<Rightarrow>
   (string \<times> node) list \<Rightarrow> (path \<times> path) list \<Rightarrow> node \<Rightarrow> (exn + (path \<times> path) list) \<times> node" where
  "copy_loop rec symlinks ignored_names src dst [] errors fs = (Inr errors, fs)"
| "copy_loop rec symlinks ignored_names src dst ((name, kind) # entries) errors fs =
     (if name \<in> set ignored_names
      then copy_loop rec symlinks ignored_names src dst entries errors fs
      else (case (case kind of
                    Dangling \<Rightarrow> if symlinks then os_symlink (dst @ [name]) fs
                                else copy2 (src @ [name]) (dst @ [name]) fs
                  | Dir es \<Rightarrow> rec (src @ [name]) (dst @ [name]) fs
                  | File bytes \<Rightarrow> copy2 (src @ [name]) (dst @ [name]) fs
                  | Sock \<Rightarrow> copy2 (src @ [name]) (dst @ [name]) fs) of
              (Inr u, fs') \<Rightarrow> copy_loop rec symlinks ignored_names src dst entries errors fs'
            | (Inl e, fs') \<Rightarrow>
                if is_shutil_Error e
                then copy_loop rec symlinks ignored_names src dst entries
                       (errors @ error_args e (src @ [name]) (dst @ [name])) fs'
                else if is_OSError e
                then copy_loop rec symlinks ignored_names src dst entries
                       (errors @ [(src @ [name], dst @ [name])]) fs'
                else (Inl e, fs')))"

text \<open>
  \<open>shutil.copytree(src, dst, symlinks, ignore, dirs_exist_ok)\<close>. The first argument is the
  number of nested calls the interpreter's recursion limit still allows: a tree deeper than
  that raises \<open>RecursionError\<close>.
\<close>

fun copytree ::
  "nat \<Rightarrow> bool \<Rightarrow> ignore option \<Rightarrow> bool \<Rightarrow> path \<Rightarrow> path \<Rightarrow> node \<Rightarrow> (exn + unit) \<times> node" where
  "copytree 0 symlinks ign dirs_exist_ok src dst fs = (Inl RecursionError, fs)"
| "copytree (Suc depth) symlinks ign dirs_exist_ok src dst fs =
     (case lookup fs src of
        None \<Rightarrow> (Inl (FileNotFoundError src), fs)
      | Some Dangling \<Rightarrow> (Inl (FileNotFoundError src), fs)
      | Some (File bytes) \<Rightarrow> (Inl (NotADirectoryError src), fs)
      | Some Sock \<Rightarrow> (Inl (NotADirectoryError src), fs)
      | Some (Dir entries) \<Rightarrow>
          (case makedirs dst dirs_exist_ok fs of
             (Inl e, fs1) \<Rightarrow> (Inl e, fs1)
           | (Inr u, fs1) \<Rightarrow>
               (case copy_loop (copytree depth symlinks ign dirs_exist_ok) symlinks
                       (case ign of None \<Rightarrow> [] | Some f \<Rightarrow> f fs src (map fst entries))
                       src dst entries [] fs1 of
                  (Inl e, fs2) \<Rightarrow> (Inl e, fs2)
                | (Inr errors, fs2) \<Rightarrow>
                    if errors \<noteq> [] then (Inl (Error_list errors), fs2) else (Inr (), fs2))))"

text \<open>\<open>shutil.rmtree\<close> of a directory.\<close>

definition rmtree :: "path \<Rightarrow> node \<Rightarrow> (exn + unit) \<times> node" where
  "rmtree p fs =
     (case lookup fs p of
        None \<Rightarrow> (Inl (FileNotFoundError p), fs)
      | Some (Dir es) \<Rightarrow> if p = [] then (Inl (OSError p), fs) else (Inr (), remove p fs)
      | Some n \<Rightarrow> (Inl (NotADirectoryError p), fs))"

text \<open>
  \<open>shutil.move(src, dst)\<close>. A source moved onto the directory it is returns after a
  \<open>rename\<close> onto itself; a destination that is a directory receives the source inside it,
  under the source's name, which must be free there; \<open>os.rename\<close> is tried, and when it
  raises, a link is re-created, a directory is copied with \<open>copytree(symlinks=True)\<close> and
  removed with \<open>rmtree\<close> (unless the destination lies inside it), and anything else is
  copied with \<open>copy2\<close> and unlinked.
\<close>

definition real_dst :: "node \<Rightarrow> path \<Rightarrow> path \<Rightarrow> path" where
  "real_dst fs src dst = (if os_path_isdir fs dst \<and> src \<noteq> [] then dst @ [last src] else dst)"

definition shutil_move :: "nat \<Rightarrow> path \<Rightarrow> path \<Rightarrow> node \<Rightarrow> (exn + unit) \<times> node" where
  "shutil_move depth src dst fs =
     (if os_path_isdir fs dst \<and> src = dst then os_rename src dst fs
      else if os_path_isdir fs dst \<and> os_path_exists fs (real_dst fs src dst)
      then (Inl (Error_exists (real_dst fs src dst)), fs)
      else (case os_rename src (real_dst fs src dst) fs of
              (Inr u, fs') \<Rightarrow> (Inr (), fs')
            | (Inl e, fs') \<Rightarrow>
                if os_path_islink fs src
                then (case os_symlink (real_dst fs src dst) fs of
                        (Inl e1, fs1) \<Rightarrow> (Inl e1, fs1)
                      | (Inr u, fs1) \<Rightarrow> os_unlink src fs1)
                else if os_path_isdir fs src
                then (if prefix src dst then (Inl (Error_itself src dst), fs)
                      else (case copytree depth True None False src (real_dst fs src dst) fs of
                              (Inl e1, fs1) \<Rightarrow> (Inl e1, fs1)
                            | (Inr u, fs1) \<Rightarrow> rmtree src fs1))
                else (case copy2 src (real_dst fs src dst) fs of
                        (Inl e1, fs1) \<Rightarrow> (Inl e1, fs1)
                      | (Inr u, fs1) \<Rightarrow> os_unlink src fs1)))"

section \<open>The migration executor\<close>

text \<open>
  The state the workflow acts on: the file system, the records handed to \<open>_logger\<close>, and the
  windows shown to the user. A log record keeps the exception an f-string formats in
  place of its text.
\<close>

datatype log_record = LogInfo string | LogError string exn

datatype ui_event = Dialog_shown path path | Information string string | Critical string string

record world =
  disk :: node
  log :: "log_record list"
  ui :: "ui_event list"

definition logger_info :: "string \<Rightarrow> world \<Rightarrow> world" where
  "logger_info msg w = w\<lparr>log := log w @ [LogInfo msg]\<rparr>"

definition logger_error :: "string \<Rightarrow> exn \<Rightarrow> world \<Rightarrow> world" where
  "logger_error msg e w = w\<lparr>log := log w @ [LogError msg e]\<rparr>"

text \<open>A path as the string an f-string prints.\<close>

definition fspath :: "path \<Rightarrow> string" where
  "fspath p = (if p = [] then ''/'' else concat (map (\<lambda>c. CHR ''/'' # c) p))"

text \<open>
  \<open>datetime.datetime.now()\<close> is a parameter. \<open>strftime("%Y%m%d%H%M%S")\<close> and \<open>isoformat()\<close>
  print the fields in decimal, zero-padded to 4, 2 and 6 digits; \<open>isoformat\<close> leaves the
  microseconds out when they are zero.
\<close>

record datetime =
  year :: nat
  month :: nat
  day :: nat
  hour :: nat
  minute :: nat
  second :: nat
  microsecond :: nat

definition digit :: "nat \<Rightarrow> char" where
  "digit n = ''0123456789'' ! (n mod 10)"

definition dec2 :: "nat \<Rightarrow> string" where
  "dec2 n = [digit (n div 10), digit n]"

definition dec4 :: "nat \<Rightarrow> string" where
  "dec4 n = [digit (n div 1000), digit (n div 100), digit (n div 10), digit n]"

definition dec6 :: "nat \<Rightarrow> string" where
  "dec6 n = [digit (n div 100000), digit (n div 10000), digit (n div 1000),
             digit (n div 100), digit (n div 10), digit n]"

definition strftime_YmdHMS :: "datetime \<Rightarrow> string" where
  "strftime_YmdHMS t =
     dec4 (year t) @ dec2 (month t) @ dec2 (day t) @ dec2 (hour t) @ dec2 (minute t) @ dec2 (second t)"

definition isoformat :: "datetime \<Rightarrow> string" where
  "isoformat t =
     dec4 (year t) @ ''-'' @ dec2 (month t) @ ''-'' @ dec2 (day t) @ ''T'' @
     dec2 (hour t) @ '':'' @ dec2 (minute t) @ '':'' @ dec2 (second t) @
     (if microsecond t = 0 then [] else ''.'' @ dec6 (microsecond t))"

text \<open>
  Modelled from the spec: \<open>util.make_dir\<close> is imported from \<open>electrum/util.py\<close>, which is not
  among the source files. The spec's step 2 is "Create \<open>target\<close> directory (and any missing
  parent directories)", and directory creation "tolerates pre-existing paths".
\<close>

definition make_dir :: "path \<Rightarrow> node \<Rightarrow> (exn + unit) \<times> node" where
  "make_dir p fs = makedirs p True fs"

text \<open>The callback \<open>ignore_sockets\<close> local to \<open>perform_migration\<close>.\<close>

fun ignore_sockets :: ignore where
  "ignore_sockets fs dir [] = []"
| "ignore_sockets fs dir (f # files) =
     (case os_stat fs (dir @ [f]) of
        Inr mode \<Rightarrow>
          if S_ISSOCK mode then f # ignore_sockets fs dir files else ignore_sockets fs dir files
      | Inl e \<Rightarrow> ignore_sockets fs dir files)"

definition marker_name :: string where
  "marker_name = ''.migrated_from_electrum''"

definition marker_text :: "datetime \<Rightarrow> path \<Rightarrow> path \<Rightarrow> path \<Rightarrow> string" where
  "marker_text now electrum_dir backup_dir factwallet_dir =
     ''Migrated from `'' @ fspath electrum_dir @ ''` (backup: `'' @ fspath backup_dir @
     ''`) to `'' @ fspath factwallet_dir @ ''` on '' @ isoformat now"

text \<open>
  The \<open>try\<close> block of \<open>perform_migration\<close>. \<open>Inl e\<close> is an exception leaving the block, with
  the state it leaves behind. \<open>now\<close> is the clock at the marker's write.
\<close>

definition migration_steps ::
  "nat \<Rightarrow> datetime \<Rightarrow> path \<Rightarrow> path \<Rightarrow> path \<Rightarrow> world \<Rightarrow> (exn + bool) \<times> world" where
  "migration_steps depth now electrum_dir backup_dir factwallet_dir w =
     (let w0 = logger_info (''Moving '' @ fspath electrum_dir @ '' to '' @ fspath backup_dir) w in
      case shutil_move depth electrum_dir backup_dir (disk w0) of
        (Inl e, fs1) \<Rightarrow> (Inl e, w0\<lparr>disk := fs1\<rparr>)
      | (Inr u, fs1) \<Rightarrow>
          (case make_dir factwallet_dir fs1 of
             (Inl e, fs2) \<Rightarrow> (Inl e, w0\<lparr>disk := fs2\<rparr>)
           | (Inr u, fs2) \<Rightarrow>
               (let w2 = logger_info (''Copying from '' @ fspath backup_dir @ '' to '' @
                                      fspath factwallet_dir) (w0\<lparr>disk := fs2\<rparr>) in
                case copytree depth False (Some ignore_sockets) True backup_dir factwallet_dir fs2 of
                  (Inl e, fs3) \<Rightarrow> (Inl e, w2\<lparr>disk := fs3\<rparr>)
                | (Inr u, fs3) \<Rightarrow>
                    (case open_write (factwallet_dir @ [marker_name])
                            (marker_text now electrum_dir backup_dir factwallet_dir) fs3 of
                       (Inl e, fs4) \<Rightarrow> (Inl e, w2\<lparr>disk := fs4\<rparr>)
                     | (Inr u, fs4) \<Rightarrow> (Inr True, w2\<lparr>disk := fs4\<rparr>)))))"

text \<open>
  \<open>perform_migration\<close>: \<open>except Exception as e\<close> catches every exception of the block (all
  of \<open>exn\<close> are subclasses of \<open>Exception\<close>), logs it and returns \<open>False\<close>.
\<close>

definition perform_migration ::
  "nat \<Rightarrow> datetime \<Rightarrow> path \<Rightarrow> path \<Rightarrow> path \<Rightarrow> world \<Rightarrow> (exn + bool) \<times> world" where
  "perform_migration depth now electrum_dir backup_dir factwallet_dir w =
     (case migration_steps depth now electrum_dir backup_dir factwallet_dir w of
        (Inr b, w') \<Rightarrow> (Inr b, w')
      | (Inl e, w') \<Rightarrow> (Inr False, logger_error ''Migration failed: '' e w'))"

section \<open>The dialog and the orchestrator\<close>

text \<open>
  \<open>MigrationDialog\<close>: the fields the workflow reads. \<open>when\<close> is the clock at the dialog's
  construction; the backup directory is \<open>f"{electrum_dir}-backupByFactWallet-{when}"\<close>, a
  suffix to the last component of the path.
\<close>

record dialog =
  d_electrum_dir :: path
  d_factwallet_dir :: path
  d_backup_dir :: path
  d_result :: bool
  d_error :: bool

definition backup_name :: "path \<Rightarrow> datetime \<Rightarrow> path" where
  "backup_name electrum_dir when =
     (if electrum_dir = [] then [''-backupByFactWallet-'' @ strftime_YmdHMS when]
      else butlast electrum_dir @
           [last electrum_dir @ ''-backupByFactWallet-'' @ strftime_YmdHMS when])"

definition MigrationDialog :: "datetime \<Rightarrow> path \<Rightarrow> path \<Rightarrow> dialog" where
  "MigrationDialog when electrum_dir factwallet_dir =
     \<lparr>d_electrum_dir = electrum_dir, d_factwallet_dir = factwallet_dir,
      d_backup_dir = backup_name electrum_dir when, d_result = False, d_error = False\<rparr>"

text \<open>
  What the user does with the dialog: the button "Yes, migrate my wallet", connected to
  \<open>do_migrate\<close>, or the button "No, create a new wallet" (or closing the window), connected
  to \<open>reject\<close>. \<open>exec_\<close> returns the dialog's fields and its code.
\<close>

datatype button = Yes_migrate | No_skip

datatype dialog_code = Accepted | Rejected

definition do_migrate ::
  "nat \<Rightarrow> datetime \<Rightarrow> dialog \<Rightarrow> world \<Rightarrow> (exn + dialog \<times> dialog_code) \<times> world" where
  "do_migrate depth now d w =
     (case perform_migration depth now (d_electrum_dir d) (d_backup_dir d) (d_factwallet_dir d) w of
        (Inl e, w') \<Rightarrow> (Inl e, w')
      | (Inr True, w') \<Rightarrow>
          (Inr (d\<lparr>d_result := True\<rparr>, Accepted),
           w'\<lparr>ui := ui w' @ [Information ''Migration Complete'' (fspath (d_backup_dir d))]\<rparr>)
      | (Inr False, w') \<Rightarrow>
          (Inr (d\<lparr>d_error := True\<rparr>, Rejected),
           w'\<lparr>ui := ui w' @ [Critical ''Migration Failed'' (fspath (d_backup_dir d))]\<rparr>))"

definition exec_dialog ::
  "nat \<Rightarrow> datetime \<Rightarrow> button \<Rightarrow> dialog \<Rightarrow> world \<Rightarrow> (exn + dialog \<times> dialog_code) \<times> world" where
  "exec_dialog depth now user d w =
     (let w0 = w\<lparr>ui := ui w @ [Dialog_shown (d_electrum_dir d) (d_factwallet_dir d)]\<rparr> in
      case user of
        Yes_migrate \<Rightarrow> do_migrate depth now d w0
      | No_skip \<Rightarrow> (Inr (d, Rejected), w0))"

text \<open>
  \<open>run_migration\<close>. The \<open>try\<close> block raises \<open>Exception\<close> when the dialog's \<open>error\<close> is set; the
  \<open>except\<close> clause logs whatever the block raised and raises it again. Creating and quitting
  the \<open>QApplication\<close> leaves no trace in the state.
\<close>

definition run_migration ::
  "nat \<Rightarrow> datetime \<Rightarrow> datetime \<Rightarrow> button \<Rightarrow> path \<Rightarrow> path \<Rightarrow> world \<Rightarrow> (exn + bool) \<times> world" where
  "run_migration depth when now user electrum_dir factwallet_dir w =
     (case (case exec_dialog depth now user (MigrationDialog when electrum_dir factwallet_dir) w of
              (Inl e, w1) \<Rightarrow> (Inl e, w1)
            | (Inr (d, code), w1) \<Rightarrow>
                if d_error d then (Inl (Exception ''Error during wallet migration''), w1)
                else if code = Accepted \<and> d_result d
                then (Inr True,
                      logger_info (''Successfully migrated data from '' @ fspath electrum_dir @
                                   '' to '' @ fspath factwallet_dir) w1)
                else (Inr True, logger_info ''User skipped migration'' w1)) of
        (Inl e, w2) \<Rightarrow> (Inl e, logger_error ''Error during migration: '' e w2)
      | (Inr b, w2) \<Rightarrow> (Inr b, w2))"

text \<open>
  The values of \<open>config_options\<close>, and Python's truth test on them. \<open>os.environ\<close> is the list of
  the names set. \<open>util.user_dir()\<close> and \<open>util.old_user_dir()\<close> are not among the source files:
  their results are parameters, the latter may be \<open>None\<close>.
\<close>

datatype pyval = PNone | PBool bool | PStr path

fun truthy :: "pyval \<Rightarrow> bool" where
  "truthy PNone = False"
| "truthy (PBool b) = b"
| "truthy (PStr p) = True"

record env =
  environ :: "string list"
  user_dir :: path
  old_user_dir :: "path option"

definition dict_get :: "(string \<times> pyval) list \<Rightarrow> string \<Rightarrow> pyval \<Rightarrow> pyval" where
  "dict_get d k dflt = (case map_of d k of Some v \<Rightarrow> v | None \<Rightarrow> dflt)"

text \<open>
  The two directories \<open>check_for_migration\<close> locates: \<open>config_options['electrum_path']\<close> and
  its sibling \<open>electrum_data\<close> in portable mode (a missing key raises \<open>KeyError\<close>, a value
  that is no string makes \<open>os.path.dirname\<close> raise \<open>TypeError\<close>), the platform's defaults
  otherwise.
\<close>

definition locate_dirs ::
  "env \<Rightarrow> (string \<times> pyval) list \<Rightarrow> exn + path \<times> path option" where
  "locate_dirs e config_options =
     (if truthy (dict_get config_options ''portable'' (PBool False))
      then (case map_of config_options ''electrum_path'' of
              None \<Rightarrow> Inl (KeyError ''electrum_path'')
            | Some (PStr p) \<Rightarrow> Inr (p, Some (butlast p @ [''electrum_data'']))
            | Some v \<Rightarrow> Inl TypeError)
      else Inr (user_dir e, old_user_dir e))"

definition show_opt_path :: "path option \<Rightarrow> string" where
  "show_opt_path p = (case p of None \<Rightarrow> ''None'' | Some q \<Rightarrow> fspath q)"

definition show_pyval :: "pyval \<Rightarrow> string" where
  "show_pyval v = (case v of PNone \<Rightarrow> ''None'' | PBool b \<Rightarrow> (if b then ''True'' else ''False'')
                   | PStr p \<Rightarrow> fspath p)"

definition check_for_migration ::
  "(string \<Rightarrow> json option) \<Rightarrow> nat \<Rightarrow> datetime \<Rightarrow> datetime \<Rightarrow> button \<Rightarrow> env \<Rightarrow>
   (string \<times> pyval) list option \<Rightarrow> world \<Rightarrow> (exn + unit) \<times> world" where
  "check_for_migration loads depth when now user e config_options w =
     (case config_options of
        None \<Rightarrow> (Inl AttributeError, w)
      | Some opts \<Rightarrow>
          if ''ANDROID_DATA'' \<in> set (environ e)
          then (Inr (), logger_info ''Skipping migration check on Android'' w)
          else if opts \<noteq> [] \<and> truthy (dict_get opts ''electrum_path'' PNone) \<and>
                  \<not> truthy (dict_get opts ''portable'' (PBool False))
          then (Inr (), logger_info (''Custom data directory specified: '' @
                                     show_pyval (dict_get opts ''electrum_path'' PNone)) w)
          else (case locate_dirs e opts of
                  Inl x \<Rightarrow> (Inl x, w)
                | Inr (factwallet_dir, electrum_dir) \<Rightarrow>
                    if os_path_exists (disk w) factwallet_dir
                    then (Inr (), logger_info (''FactWallet directory already exists: '' @
                                               fspath factwallet_dir) w)
                    else (case electrum_dir of
                            None \<Rightarrow> (Inr (), logger_info (''No Electrum directory found at: '' @
                                                          show_opt_path electrum_dir) w)
                          | Some src \<Rightarrow>
                              if \<not> os_path_exists (disk w) src
                              then (Inr (), logger_info (''No Electrum directory found at: '' @
                                                         show_opt_path electrum_dir) w)
                              else (case is_factwallet_data loads (disk w) src of
                                      Inl x \<Rightarrow> (Inl x, w)
                                    | Inr False \<Rightarrow> (Inr (), w)
                                    | Inr True \<Rightarrow>
                                        (case run_migration depth when now user src factwallet_dir
                                                (logger_info (''Found FactWallet data in Electrum directory: '' @
                                                              fspath src) w) of
                                           (Inl x, w') \<Rightarrow> (Inl x, w')
                                         | (Inr b, w') \<Rightarrow> (Inr (), w'))))))"

section \<open>Notions the properties are stated with\<close>

text \<open>A tree whose directories hold no name twice, as every directory on disk does.\<close>

fun wf_tree :: "node \<Rightarrow> bool" and wf_entries :: "(string \<times> node) list \<Rightarrow> bool" where
  "wf_tree (Dir es) = (distinct (map fst es) \<and> wf_entries es)"
| "wf_tree (File bytes) = True"
| "wf_tree Sock = True"
| "wf_tree Dangling = True"
| "wf_entries [] = True"
| "wf_entries ((k, n) # es) = (wf_tree n \<and> wf_entries es)"

text \<open>The number of nested calls of \<open>copytree\<close> a tree needs: one for each level of directories.\<close>

fun height :: "node \<Rightarrow> nat" and height_entries :: "(string \<times> node) list \<Rightarrow> nat" where
  "height (Dir es) = Suc (height_entries es)"
| "height (File bytes) = 0"
| "height Sock = 0"
| "height Dangling = 0"
| "height_entries [] = 0"
| "height_entries ((k, n) # es) = max (height n) (height_entries es)"

text \<open>
  What a copy of a tree holds: its regular files and its directories, at every depth; no
  socket; a broken link only when links are copied as links (\<open>symlinks\<close>).
\<close>

fun copied :: "bool \<Rightarrow> node \<Rightarrow> node"
  and copied_entries :: "bool \<Rightarrow> (string \<times> node) list \<Rightarrow> (string \<times> node) list" where
  "copied symlinks (Dir es) = Dir (copied_entries symlinks es)"
| "copied symlinks (File bytes) = File bytes"
| "copied symlinks Sock = Sock"
| "copied symlinks Dangling = Dangling"
| "copied_entries symlinks [] = []"
| "copied_entries symlinks ((k, n) # es) =
     (case n of
        Sock \<Rightarrow> copied_entries symlinks es
      | Dangling \<Rightarrow> if symlinks then (k, Dangling) # copied_entries symlinks es
                    else copied_entries symlinks es
      | File bytes \<Rightarrow> (k, File bytes) # copied_entries symlinks es
      | Dir sub \<Rightarrow> (k, copied symlinks (Dir sub)) # copied_entries symlinks es)"

text \<open>
  The entries a copy of the directory \<open>src\<close> into \<open>dst\<close> fails on, each with its source and
  its destination, in the order of the listing: the sockets unless they are ignored, the
  broken links unless links are copied as links, and those of the subdirectories.
\<close>

fun uncopied :: "bool \<Rightarrow> bool \<Rightarrow> path \<Rightarrow> path \<Rightarrow> (string \<times> node) list \<Rightarrow> (path \<times> path) list" where
  "uncopied symlinks ignoring src dst [] = []"
| "uncopied symlinks ignoring src dst ((k, n) # es) =
     (case n of
        Sock \<Rightarrow> if ignoring then [] else [(src @ [k], dst @ [k])]
      | Dangling \<Rightarrow> if symlinks then [] else [(src @ [k], dst @ [k])]
      | File bytes \<Rightarrow> []
      | Dir sub \<Rightarrow> uncopied symlinks ignoring (src @ [k]) (dst @ [k]) sub)
     @ uncopied symlinks ignoring src dst es"

text \<open>How \<open>copytree\<close> ends: it returns, or raises \<open>shutil.Error\<close> with the entries it failed on.\<close>

definition outcome :: "(path \<times> path) list \<Rightarrow> exn + unit" where
  "outcome errors = (if errors = [] then Inr () else Inl (Error_list errors))"

text \<open>
  \<open>kept fs fs'\<close>: every path of \<open>fs\<close> is a path of \<open>fs'\<close>, and holds an entry of the same
  kind there.
\<close>

fun same_kind :: "node \<Rightarrow> node \<Rightarrow> bool" where
  "same_kind (File a) (File b) = True"
| "same_kind Sock Sock = True"
| "same_kind Dangling Dangling = True"
| "same_kind (Dir a) (Dir b) = True"
| "same_kind n m = False"

definition kept :: "node \<Rightarrow> node \<Rightarrow> bool" where
  "kept fs fs' = (\<forall>p n. lookup fs p = Some n \<longrightarrow> (\<exists>n'. lookup fs' p = Some n' \<and> same_kind n n'))"

text \<open>A clock reading and an empty log, for the examples.\<close>

definition noon :: datetime where
  "noon = \<lparr>year = 2025, month = 1, day = 2, hour = 3, minute = 4, second = 5, microsecond = 0\<rparr>"

definition on_disk :: "node \<Rightarrow> world" where
  "on_disk t = \<lparr>disk = t, log = [], ui = []\<rparr>"


text \<open>A data directory with a wallet and a socket, and one that holds an entry of its own name.\<close>

definition plain_home :: node where
  "plain_home = Dir [(''s'', Dir [(''config'', File ''{}''), (''wallet'', File ''abc''), (''daemon'', Sock)])]"

definition nested_home :: node where
  "nested_home = Dir [(''s'', Dir [(''s'', File ''abc'')])]"

text \<open>One turn of the loop of \<open>copy_loop\<close>, as a function of the entry.\<close>

definition copy_entry ::
  "(path \<Rightarrow> path \<Rightarrow> node \<Rightarrow> (exn + unit) \<times> node) \<Rightarrow> bool \<Rightarrow> path \<Rightarrow> path \<Rightarrow> string \<Rightarrow> node \<Rightarrow>
   node \<Rightarrow> (exn + unit) \<times> node" where
  "copy_entry rec symlinks src dst name kind fs =
     (case kind of
        Dangling \<Rightarrow> if symlinks then os_symlink (dst @ [name]) fs
                    else copy2 (src @ [name]) (dst @ [name]) fs
      | Dir es \<Rightarrow> rec (src @ [name]) (dst @ [name]) fs
      | File bytes \<Rightarrow> copy2 (src @ [name]) (dst @ [name]) fs
      | Sock \<Rightarrow> copy2 (src @ [name]) (dst @ [name]) fs)"

text \<open>The first step of \<open>makedirs\<close>, the making of the parents, as a function.\<close>

definition parents_made :: "path \<Rightarrow> bool \<Rightarrow> node \<Rightarrow> (exn + unit) \<times> node" where
  "parents_made p ok fs =
     (if p \<noteq> [] \<and> \<not> os_path_exists fs (butlast p)
      then (case makedirs (butlast p) ok fs of
              (Inl (FileExistsError q), fs') \<Rightarrow> (Inr (), fs')
            | r \<Rightarrow> r)
      else (Inr (), fs))"


text \<open>
  A target that holds a file before the migration, and a data directory that holds a file
  under the marker's name.
\<close>

definition occupied_home :: node where
  "occupied_home = Dir [(''s'', Dir [(''wallet'', File ''abc'')]), (''t'', Dir [(''old'', File ''x'')])]"

definition marked_home :: node where
  "marked_home = Dir [(''s'', Dir [(''.migrated_from_electrum'', File ''old''), (''wallet'', File ''abc'')])]"

section \<open>Lookups in the tree\<close>

lemma lookup_append:
  "lookup t (p @ q) = (case lookup t p of None \<Rightarrow> None | Some n \<Rightarrow> lookup n q)"
  by (induction t p rule: lookup.induct) (auto split: option.splits)

section \<open>The detector on a configuration that is no JSON object, or no UTF-8\<close>

text \<open>
  C3, evaluated where it fails. The claim has \<open>is_factwallet_data\<close> return false for every
  directory whose configuration has no \<open>blockchain_preferred_block.hash\<close> among the known
  hashes. When the configuration parses to a value that is no JSON object (a list, a
  string, a number, \<open>null\<close>), or its field \<open>blockchain_preferred_block\<close> holds such a value,
  the call of \<open>.get\<close> raises \<open>AttributeError\<close>, which the \<open>except\<close> clause does not name:
  the function raises instead of returning false.
\<close>

theorem is_factwallet_data_no_object_raises:
  assumes "lookup fs directory = Some (Dir es)"
    and "map_of es ''config'' = Some (File bytes)"
    and "utf8_valid bytes"
    and "loads bytes = Some v"
    and "(\<forall>items. v \<noteq> JObj items) \<or>
         (\<exists>items b. v = JObj items \<and> map_of items ''blockchain_preferred_block'' = Some b \<and>
                    (\<forall>bs. b \<noteq> JObj bs))"
  shows "is_factwallet_data loads fs directory = Inl AttributeError"
proof -
  have c: "lookup fs (directory @ [''config'']) = Some (File bytes)"
    using assms(1,2) by (simp add: lookup_append)
  have g: "py_get v ''blockchain_preferred_block'' (JObj []) = Inl AttributeError \<or>
        (\<exists>b. py_get v ''blockchain_preferred_block'' (JObj []) = Inr b \<and>
             py_get b ''hash'' JNull = Inl AttributeError)"
    using assms(5) by (cases v) (auto, case_tac b, auto)
  have "read_fingerprint loads fs (directory @ [''config'']) = Inl AttributeError"
    using c assms(3,4) g by (auto simp: read_fingerprint_def open_read_def json_load_def)
  then show ?thesis
    using assms(1) c by (simp add: is_factwallet_data_def os_path_exists_def)
qed

theorem is_factwallet_data_no_object_raises_witness:
  "is_factwallet_data (\<lambda>s. if s = ''[]'' then Some (JArr []) else None)
     (Dir [(''d'', Dir [(''config'', File ''[]'')])]) [''d''] = Inl AttributeError"
  using is_factwallet_data_no_object_raises
    [of "Dir [(''d'', Dir [(''config'', File ''[]'')])]" "[''d'']"
      "[(''config'', File ''[]'')]" "''[]''"
      "\<lambda>s. if s = ''[]'' then Some (JArr []) else None" "JArr []"]
  by (simp add: in_range_def)

text \<open>
  C4, evaluated where it fails. The claim has \<open>is_factwallet_data\<close> return false whenever the
  configuration file is not valid structured data. A file whose bytes are not UTF-8 makes
  \<open>json.load\<close> raise \<open>UnicodeDecodeError\<close>, a \<open>ValueError\<close> that is neither a
  \<open>JSONDecodeError\<close> nor an \<open>OSError\<close>: the function raises it to its caller, whatever
  the JSON parser.
\<close>

theorem is_factwallet_data_no_utf8_raises:
  assumes "lookup fs directory = Some (Dir es)"
    and "map_of es ''config'' = Some (File bytes)"
    and "\<not> utf8_valid bytes"
  shows "is_factwallet_data loads fs directory = Inl UnicodeDecodeError"
proof -
  have c: "lookup fs (directory @ [''config'']) = Some (File bytes)"
    using assms(1,2) by (simp add: lookup_append)
  have "read_fingerprint loads fs (directory @ [''config'']) = Inl UnicodeDecodeError"
    using c assms(3) by (auto simp: read_fingerprint_def open_read_def json_load_def)
  then show ?thesis
    using assms(1) c by (simp add: is_factwallet_data_def os_path_exists_def)
qed

theorem is_factwallet_data_no_utf8_raises_witness:
  "is_factwallet_data (\<lambda>s. None) (Dir [(''d'', Dir [(''config'', File [CHR 0xFF])])]) [''d'']
     = Inl UnicodeDecodeError"
  using is_factwallet_data_no_utf8_raises
    [of "Dir [(''d'', Dir [(''config'', File [CHR 0xFF])])]" "[''d'']"
      "[(''config'', File [CHR 0xFF])]" "[CHR 0xFF]" "\<lambda>s. None"]
  by (simp add: in_range_def)

section \<open>The orchestrator called with its default argument\<close>

text \<open>
  C10: \<open>check_for_migration\<close> called with \<open>config_options = None\<close>, the default of its
  signature, raises \<open>AttributeError\<close> at \<open>config_options.get\<close>, its first statement:
  whatever the environment, the file system and the user, before any skip condition is
  looked at, and with the state as it was.
\<close>

theorem check_for_migration_None_raises:
  "check_for_migration loads depth when now user e None w = (Inl AttributeError, w)"
  by (simp add: check_for_migration_def)

section \<open>Reading and writing the tree\<close>

lemma lookup_snoc:
  "lookup t (p @ [c]) = (case lookup t p of Some (Dir es) \<Rightarrow> map_of es c | _ \<Rightarrow> None)"
  by (simp add: lookup_append split: option.splits node.splits)

lemma lookup_parent_dir:
  assumes "lookup t p = Some n" "p \<noteq> []" shows "is_dir (lookup t (butlast p))"
proof -
  from assms(2) have "p = butlast p @ [last p]" by simp
  then have "lookup t (butlast p @ [last p]) = Some n" using assms(1) by simp
  then show ?thesis by (auto simp: lookup_snoc split: option.splits node.splits)
qed

lemma lookup_prefix_present:
  "lookup t (p @ q) = Some n \<Longrightarrow> lookup t p \<noteq> None"
  by (auto simp: lookup_append split: option.splits)

lemma lookup_put_other:
  "\<not> prefix p q \<Longrightarrow> \<not> prefix q p \<Longrightarrow> lookup (put p n t) q = lookup t q"
proof (induction p n t arbitrary: q rule: put.induct)
  case (2 c n es)
  then show ?case by (cases q) (auto simp: update_conv')
next
  case (3 c v va n es)
  then show ?case by (cases q) (auto simp: update_conv' split: option.splits)
qed auto

lemma lookup_put_below:
  "p \<noteq> [] \<Longrightarrow> is_dir (lookup t (butlast p)) \<Longrightarrow> lookup (put p n t) (p @ q) = lookup n q"
proof (induction p n t rule: put.induct)
  case (2 c n es)
  then show ?case by (auto simp: update_conv')
next
  case (3 c v va n es)
  then show ?case by (auto simp: update_conv' split: option.splits)
qed (auto split: if_splits)

lemma lookup_put_same:
  "p \<noteq> [] \<Longrightarrow> is_dir (lookup t (butlast p)) \<Longrightarrow> lookup (put p n t) p = Some n"
  using lookup_put_below [of p t n "[]"] by simp

lemma put_noop:
  "\<not> is_dir (lookup t (butlast p)) \<Longrightarrow> put p n t = t"
  by (induction p n t rule: put.induct) (auto simp: update_triv split: option.splits if_splits)

lemma put_put_same: "put p n (put p m t) = put p n t"
  by (induction p n t rule: put.induct) (auto simp: update_conv' split: option.splits)

lemma put_triv: "lookup t p = Some n \<Longrightarrow> put p n t = t"
  by (induction p n t rule: put.induct) (auto simp: update_triv split: option.splits)

lemma put_put_child:
  "p \<noteq> [] \<Longrightarrow> lookup t p = Some (Dir es) \<Longrightarrow> put (p @ [k]) n t = put p (Dir (AList.update k n es)) t"
proof (induction p "Dir es" t rule: put.induct)
  case (2 c ts)
  then show ?case by (auto split: option.splits)
next
  case (3 c v va ts)
  then show ?case by (auto split: option.splits)
qed auto

lemma lookup_put_prefix:
  "prefix q p \<Longrightarrow> q \<noteq> p \<Longrightarrow> is_dir (lookup t (butlast p)) \<Longrightarrow> is_dir (lookup (put p n t) q)"
proof (induction p n t arbitrary: q rule: put.induct)
  case (2 c n es)
  then show ?case by (cases q) auto
next
  case (3 c v va n es)
  then show ?case by (cases q) (auto simp: update_conv' split: option.splits)
qed (auto split: if_splits)

lemma lookup_remove_other:
  "\<not> prefix p q \<Longrightarrow> \<not> prefix q p \<Longrightarrow> lookup (remove p t) q = lookup t q"
proof (induction p t arbitrary: q rule: remove.induct)
  case (2 c es)
  then show ?case by (cases q) (auto simp: delete_conv')
next
  case (3 c v va es)
  then show ?case by (cases q) (auto simp: update_conv' split: option.splits)
qed auto

lemma lookup_remove_below:
  "p \<noteq> [] \<Longrightarrow> lookup (remove p t) (p @ q) = None"
proof (induction p t rule: remove.induct)
  case (2 c es)
  then show ?case by (auto simp: delete_conv')
next
  case (3 c v va es)
  then show ?case by (auto simp: update_conv' split: option.splits)
qed (auto split: if_splits)

lemma lookup_remove_prefix:
  "prefix q p \<Longrightarrow> q \<noteq> p \<Longrightarrow> is_dir (lookup (remove p t) q) = is_dir (lookup t q)"
proof (induction p t arbitrary: q rule: remove.induct)
  case (2 c es)
  then show ?case by (cases q) auto
next
  case (3 c v va es)
  then show ?case by (cases q) (auto simp: update_conv' split: option.splits)
qed (auto split: if_splits)

section \<open>What the calls keep\<close>

lemma kept_refl: "kept fs fs"
  by (auto simp: kept_def) (case_tac n, auto)

lemma same_kind_trans: "same_kind a b \<Longrightarrow> same_kind b c \<Longrightarrow> same_kind a c"
  by (cases a; cases b; cases c) auto

lemma kept_trans: "kept a b \<Longrightarrow> kept b c \<Longrightarrow> kept a c"
  unfolding kept_def by (meson same_kind_trans)

lemma lookup_below_not_dir:
  "lookup t p = None \<or> \<not> is_dir (lookup t p) \<Longrightarrow> q \<noteq> [] \<Longrightarrow> lookup t (p @ q) = None"
  by (cases q; cases "lookup t p" rule: is_dir.cases) (auto simp: lookup_append)

lemma lookup_above_is_dir:
  assumes "lookup t (p @ q) = Some n" "q \<noteq> []" shows "is_dir (lookup t p)"
  using assms lookup_below_not_dir [of t p q] by auto

lemma kept_put:
  assumes "lookup fs p = None \<or> (\<exists>a b. lookup fs p = Some (File a) \<and> n = File b)"
  shows "kept fs (put p n fs)"
proof (cases "p \<noteq> [] \<and> is_dir (lookup fs (butlast p))")
  case False
  then have "put p n fs = fs" by (cases p) (auto simp: put_noop)
  then show ?thesis by (simp add: kept_refl)
next
  case True
  show ?thesis unfolding kept_def
  proof (intro allI impI)
    fix q m assume q: "lookup fs q = Some m"
    consider "q = p" | "prefix q p" "q \<noteq> p" | "prefix p q" "q \<noteq> p" | "\<not> prefix p q" "\<not> prefix q p"
      by blast
    then show "\<exists>n'. lookup (put p n fs) q = Some n' \<and> same_kind m n'"
    proof cases
      case 1
      with assms q True show ?thesis by (auto simp: lookup_put_same)
    next
      case 2
      then obtain r where r: "p = q @ r" "r \<noteq> []" by (auto simp: prefix_def)
      have "is_dir (lookup (put p n fs) q)" using 2 True by (simp add: lookup_put_prefix)
      moreover have "is_dir (lookup fs q)"
      proof -
        from True obtain es where "lookup fs (butlast p) = Some (Dir es)"
          by (cases "lookup fs (butlast p)" rule: is_dir.cases) auto
        moreover have "butlast p = q @ butlast r" using r by (simp add: butlast_append)
        ultimately show ?thesis using q
          by (cases "butlast r = []") (auto dest: lookup_above_is_dir)
      qed
      ultimately show ?thesis using q
        by (cases m; cases "lookup (put p n fs) q" rule: is_dir.cases) auto
    next
      case 3
      then obtain r where "q = p @ r" "r \<noteq> []" by (auto simp: prefix_def)
      with assms q lookup_below_not_dir [of fs p r] show ?thesis by auto
    next
      case 4
      with q show ?thesis by (cases m) (auto simp: lookup_put_other)
    qed
  qed
qed

lemma kept_open_write: "kept fs (snd (open_write p bytes fs))"
  by (auto simp: open_write_def kept_refl intro!: kept_put split: option.splits node.splits)

lemma kept_os_mkdir: "kept fs (snd (os_mkdir p fs))"
  by (auto simp: os_mkdir_def kept_refl intro!: kept_put split: option.splits node.splits)

lemma kept_os_symlink: "kept fs (snd (os_symlink p fs))"
  by (auto simp: os_symlink_def kept_refl intro!: kept_put split: option.splits node.splits)

lemma kept_copyfile: "kept fs (snd (copyfile s d fs))"
  using kept_open_write by (auto simp: copyfile_def kept_refl split: sum.splits)

lemma kept_copy2: "kept fs (snd (copy2 s d fs))"
  by (simp add: copy2_def kept_copyfile)

lemma kept_makedirs: "kept fs (snd (makedirs p ok fs))"
proof (induction p ok fs rule: makedirs.induct)
  case (1 p ok fs)
  show ?case
  proof (cases "p \<noteq> [] \<and> \<not> os_path_exists fs (butlast p)")
    case True
    then have k1: "kept fs (snd (makedirs (butlast p) ok fs))" using 1 by simp
    have k2: "kept (snd (makedirs (butlast p) ok fs)) (snd (os_mkdir p (snd (makedirs (butlast p) ok fs))))"
      by (rule kept_os_mkdir)
    show ?thesis
      using True k1 kept_trans [OF k1 k2]
      by (subst makedirs.simps) (auto split: prod.splits sum.splits exn.splits)
  next
    case False
    then show ?thesis
      using kept_os_mkdir [of fs p]
      by (subst makedirs.simps) (auto split: prod.splits sum.splits)
  qed
qed

lemma kept_copy_loop:
  assumes "\<And>s d f. kept f (snd (rec s d f))"
  shows "kept fs (snd (copy_loop rec sy ig src dst entries errs fs))"
proof (induction entries arbitrary: errs fs)
  case Nil
  show ?case by (simp add: kept_refl)
next
  case (Cons a entries)
  obtain name kind where a: "a = (name, kind)" by (cases a)
  define X where "X = (case kind of
                    Dangling \<Rightarrow> if sy then os_symlink (dst @ [name]) fs
                                else copy2 (src @ [name]) (dst @ [name]) fs
                  | Dir es \<Rightarrow> rec (src @ [name]) (dst @ [name]) fs
                  | File bytes \<Rightarrow> copy2 (src @ [name]) (dst @ [name]) fs
                  | Sock \<Rightarrow> copy2 (src @ [name]) (dst @ [name]) fs)"
  have kx: "kept fs (snd X)"
    unfolding X_def using assms kept_copy2 kept_os_symlink by (cases kind) auto
  obtain r fs' where X: "X = (r, fs')" by (cases X)
  have step: "\<And>e. kept fs (snd (copy_loop rec sy ig src dst entries e fs'))"
    using kept_trans [OF _ Cons.IH] kx X by simp
  show ?case
  proof (cases "name \<in> set ig")
    case True
    then show ?thesis using a Cons.IH by simp
  next
    case False
    then show ?thesis
      using a X step kx unfolding X_def [symmetric]
      by (cases r) (auto simp: X_def [symmetric])
  qed
qed

lemma kept_copytree: "kept fs (snd (copytree depth sy ign ok src dst fs))"
proof (induction depth arbitrary: src dst fs)
  case 0
  show ?case by (simp add: kept_refl)
next
  case (Suc depth)
  have loop: "\<And>ig es f. kept f (snd (copy_loop (copytree depth sy ign ok) sy ig src dst es [] f))"
    by (rule kept_copy_loop) (rule Suc.IH)
  have mk: "kept fs (snd (makedirs dst ok fs))" by (rule kept_makedirs)
  show ?case
  proof (cases "lookup fs src")
    case None
    then show ?thesis by (simp add: kept_refl)
  next
    case (Some n)
    show ?thesis
    proof (cases n)
      case (Dir entries)
      obtain r1 fs1 where m: "makedirs dst ok fs = (r1, fs1)" by (cases "makedirs dst ok fs")
      have k1: "kept fs fs1" using mk m by simp
      show ?thesis
      proof (cases r1)
        case (Inl e)
        then show ?thesis using Some Dir m k1 by simp
      next
        case (Inr u)
        obtain r2 fs2 where l: "copy_loop (copytree depth sy ign ok) sy
              (case ign of None \<Rightarrow> [] | Some f \<Rightarrow> f fs src (map fst entries)) src dst entries [] fs1 = (r2, fs2)"
          by (cases "copy_loop (copytree depth sy ign ok) sy
              (case ign of None \<Rightarrow> [] | Some f \<Rightarrow> f fs src (map fst entries)) src dst entries [] fs1")
        have "kept fs1 fs2" using loop [of fs1 _ entries] l by (metis snd_conv)
        then have "kept fs fs2" using k1 kept_trans by blast
        then show ?thesis using Some Dir m Inr l by (cases r2) auto
      qed
    qed (use Some in \<open>auto simp: kept_refl\<close>)
  qed
qed


lemma is_dir_remove:
  assumes "\<not> prefix s q" shows "is_dir (lookup (remove s t) q) = is_dir (lookup t q)"
proof (cases "prefix q s")
  case True
  then show ?thesis using assms by (intro lookup_remove_prefix) auto
next
  case False
  then show ?thesis using assms by (simp add: lookup_remove_other)
qed

lemma present_prefix: "lookup t (p @ q) \<noteq> None \<Longrightarrow> lookup t p \<noteq> None"
  by (auto simp: lookup_append split: option.splits)


lemma kept_is_dir:
  assumes "kept a b" "is_dir (lookup a p)" shows "is_dir (lookup b p)"
proof -
  from assms(2) obtain es where "lookup a p = Some (Dir es)"
    by (cases "lookup a p" rule: is_dir.cases) auto
  then obtain n' where "lookup b p = Some n'" "same_kind (Dir es) n'"
    using assms(1) by (auto simp: kept_def)
  then show ?thesis by (cases n') auto
qed

lemma present_above: "prefix p q \<Longrightarrow> lookup t q \<noteq> None \<Longrightarrow> lookup t p \<noteq> None"
  by (auto simp: prefix_def lookup_append split: option.splits)

lemma is_dir_present: "is_dir x \<Longrightarrow> x \<noteq> None"
  by (cases x rule: is_dir.cases) auto









lemma open_write_success:
  assumes "open_write p bytes fs = (Inr u, fs')" "p \<noteq> []"
  shows "lookup fs' p = Some (File bytes)"
proof -
  have "is_dir (lookup fs (butlast p))" "fs' = put p (File bytes) fs"
    using assms lookup_parent_dir [of fs p]
    by (auto simp: open_write_def split: option.splits node.splits)
  then show ?thesis using assms(2) by (simp add: lookup_put_same)
qed

lemma kept_snd: "f = (r, fs') \<Longrightarrow> kept fs (snd f) \<Longrightarrow> kept fs fs'"
  by simp


lemma perform_migration_returns:
  "\<exists>b w'. perform_migration depth now e b0 t w = (Inr b, w')"
  by (cases "migration_steps depth now e b0 t w"; cases "fst (migration_steps depth now e b0 t w)")
     (auto simp: perform_migration_def)

section \<open>The executor never raises, and keeps the backup\<close>



section \<open>The outcomes of \<open>run_migration\<close>\<close>

text \<open>
  C6: \<open>run_migration\<close> returns \<open>True\<close> when the executor succeeded and when the user
  declined, in which case the file system is as it was. It raises in exactly one case: the
  user chose to migrate and \<open>perform_migration\<close> returned \<open>False\<close>; then it raises
  \<open>Exception("Error during wallet migration")\<close>.
\<close>

theorem run_migration_outcomes:
  "fst (run_migration depth when now user e t w) =
     (if user = Yes_migrate \<and>
         fst (perform_migration depth now e (backup_name e when) t
                (w\<lparr>ui := ui w @ [Dialog_shown e t]\<rparr>)) = Inr False
      then Inl (Exception ''Error during wallet migration'') else Inr True) \<and>
   disk (snd (run_migration depth when now No_skip e t w)) = disk w"
proof -
  obtain b w' where p: "perform_migration depth now e (backup_name e when) t
                (w\<lparr>ui := ui w @ [Dialog_shown e t]\<rparr>) = (Inr b, w')"
    using perform_migration_returns by blast
  show ?thesis
    using p by (cases user; cases b)
      (auto simp: run_migration_def exec_dialog_def do_migrate_def MigrationDialog_def
          logger_info_def logger_error_def Let_def)
qed

section \<open>The marker file and the name of the backup\<close>

lemma fspath_backup_name:
  "fspath (backup_name e when) = fspath e @ ''-backupByFactWallet-'' @ strftime_YmdHMS when"
proof (cases "e = []")
  case True
  then show ?thesis by (simp add: fspath_def backup_name_def)
next
  case False
  then have "e = butlast e @ [last e]" by simp
  then have "concat (map (\<lambda>c. CHR ''/'' # c) e) =
      concat (map (\<lambda>c. CHR ''/'' # c) (butlast e)) @ CHR ''/'' # last e"
    by (metis (no_types, lifting) concat.simps(1,2) concat_append list.simps(8,9) map_append append_Nil2)
  then show ?thesis using False by (simp add: fspath_def backup_name_def)
qed

lemma digit_char: "digit n \<in> set ''0123456789''"
proof -
  have "n mod 10 < length ''0123456789''" by simp
  then show ?thesis unfolding digit_def by (rule nth_mem)
qed

lemma strftime_digits:
  "length (strftime_YmdHMS when) = 14 \<and> set (strftime_YmdHMS when) \<subseteq> set ''0123456789''"
  using digit_char by (auto simp: strftime_YmdHMS_def dec4_def dec2_def)

lemma migration_success_marker:
  assumes "perform_migration depth now e b t w = (Inr True, w')"
  shows "lookup (disk w') (t @ [marker_name]) = Some (File (marker_text now e b t))"
proof -
  from assms obtain fs3 u where "open_write (t @ [marker_name]) (marker_text now e b t) fs3 = (Inr u, disk w')"
    by (auto simp: perform_migration_def migration_steps_def Let_def logger_info_def
        split: prod.splits sum.splits)
  then show ?thesis by (rule open_write_success) simp
qed

text \<open>
  C9, amended. After a successful \<open>perform_migration\<close> the file
  \<open><target>/.migrated_from_electrum\<close> holds exactly the text
  \<open>Migrated from `<source>` (backup: `<backup>`) to `<target>` on <ISO-8601 timestamp>\<close>,
  each of the three paths between backticks, with no line end. The backup path of the
  dialog is the source path followed by \<open>-backupByFactWallet-\<close> and the 14 decimal digits
  of \<open>strftime("%Y%m%d%H%M%S")\<close>.
\<close>

theorem marker_file_and_backup_name:
  "(\<forall>w'. perform_migration depth now e b t w = (Inr True, w') \<longrightarrow>
      lookup (disk w') (t @ [''.migrated_from_electrum'']) =
        Some (File (''Migrated from `'' @ fspath e @ ''` (backup: `'' @ fspath b @
                    ''`) to `'' @ fspath t @ ''` on '' @ isoformat now))) \<and>
   d_backup_dir (MigrationDialog when e t) = backup_name e when \<and>
   fspath (backup_name e when) = fspath e @ ''-backupByFactWallet-'' @ strftime_YmdHMS when \<and>
   length (strftime_YmdHMS when) = 14 \<and> set (strftime_YmdHMS when) \<subseteq> set ''0123456789''"
  using migration_success_marker [of depth now e b t w] fspath_backup_name [of e "when"]
    strftime_digits [of "when"]
  by (simp add: marker_name_def marker_text_def MigrationDialog_def)

theorem marker_file_and_backup_name_witness:
  "fst (perform_migration 5 noon [''s''] [''b''] [''t''] (on_disk plain_home)) = Inr True \<and>
   lookup (disk (snd (perform_migration 5 noon [''s''] [''b''] [''t''] (on_disk plain_home))))
     [''t'', ''.migrated_from_electrum''] =
     Some (File ''Migrated from `/s` (backup: `/b`) to `/t` on 2025-01-02T03:04:05'')"
proof -
  have f: "fst (perform_migration 5 noon [''s''] [''b''] [''t''] (on_disk plain_home)) = Inr True"
    by code_simp
  then have "perform_migration 5 noon [''s''] [''b''] [''t''] (on_disk plain_home) =
     (Inr True, snd (perform_migration 5 noon [''s''] [''b''] [''t''] (on_disk plain_home)))"
    by (metis prod.collapse)
  moreover have "''Migrated from `'' @ fspath [''s''] @ ''` (backup: `'' @ fspath [''b''] @
                    ''`) to `'' @ fspath [''t''] @ ''` on '' @ isoformat noon =
     ''Migrated from `/s` (backup: `/b`) to `/t` on 2025-01-02T03:04:05''"
    by code_simp
  ultimately show ?thesis
    using f marker_file_and_backup_name [of 5 noon "[''s'']" "[''b'']" "[''t'']" "on_disk plain_home"]
    by simp
qed

text \<open>
  C9 as stated fails: the claim's line has the paths bare, the code puts each between
  backticks.
\<close>

theorem marker_without_backticks_counterexample:
  "fst (perform_migration 5 noon [''s''] [''b''] [''t''] (on_disk plain_home)) = Inr True \<and>
   lookup (disk (snd (perform_migration 5 noon [''s''] [''b''] [''t''] (on_disk plain_home))))
     [''t'', ''.migrated_from_electrum''] \<noteq>
     Some (File ''Migrated from /s (backup: /b) to /t on 2025-01-02T03:04:05'')"
  by code_simp

section \<open>A second migration\<close>

lemma move_missing_source:
  assumes "lookup fs src = None"
  shows "shutil_move depth src dst fs =
     (Inl (if os_path_isdir fs dst \<and> os_path_exists fs (dst @ [last src])
           then Error_exists (dst @ [last src]) else FileNotFoundError src), fs)"
proof -
  have ne: "src \<noteq> []" using assms by auto
  have nd: "src \<noteq> dst \<or> \<not> os_path_isdir fs dst" using assms by (auto simp: os_path_isdir_def)
  have r: "os_rename src p fs = (Inl (FileNotFoundError src), fs)" for p
    using assms by (simp add: os_rename_def)
  have c: "copy2 src p fs = (Inl (FileNotFoundError src), fs)" for p
    using assms by (auto simp: copy2_def copyfile_def open_read_def os_path_exists_def)
  show ?thesis
    using assms ne nd r c
    by (auto simp: shutil_move_def real_dst_def os_path_islink_def os_path_isdir_def)
qed

lemma migration_success_backup_dir:
  assumes "perform_migration depth now e b t w = (Inr True, w')"
  shows "is_dir (lookup (disk w') b)"
proof -
  from assms obtain fs2 fs3 u u' where
    c: "copytree depth False (Some ignore_sockets) True b t fs2 = (Inr u, fs3)"
    and o: "open_write (t @ [marker_name]) (marker_text now e b t) fs3 = (Inr u', disk w')"
    by (auto simp: perform_migration_def migration_steps_def Let_def logger_info_def
        split: prod.splits sum.splits)
  have "is_dir (lookup fs2 b)"
    using c by (cases depth) (auto split: option.splits node.splits)
  moreover have "kept fs2 fs3"
    using kept_copytree [of fs2 depth False "Some ignore_sockets" True b t] c by simp
  moreover have "kept fs3 (disk w')"
    using kept_open_write [of fs3 "t @ [marker_name]" "marker_text now e b t"] o by simp
  ultimately show ?thesis using kept_is_dir by blast
qed

text \<open>
  C5, amended. When \<open>perform_migration\<close> has succeeded and the source is gone, a second
  call with the same arguments returns \<open>False\<close> and leaves the file system, backup and
  target included, exactly as the first call left it: it only adds two records to the log.
  The error it logs is \<open>FileNotFoundError\<close> for the source, unless the backup directory
  holds an entry of the source's last name: then \<open>shutil.move\<close> raises
  "Destination path <backup>/<name> already exists" before it looks at the source.
\<close>

theorem second_migration_fails:
  assumes "perform_migration depth now src b t w = (Inr True, w1)"
    and "lookup (disk w1) src = None"
  shows "perform_migration depth now' src b t w1 =
     (Inr False,
      w1\<lparr>log := log w1 @
         [LogInfo (''Moving '' @ fspath src @ '' to '' @ fspath b),
          LogError ''Migration failed: ''
            (if os_path_exists (disk w1) (b @ [last src])
             then Error_exists (b @ [last src]) else FileNotFoundError src)]\<rparr>)"
proof -
  have "os_path_isdir (disk w1) b"
    using migration_success_backup_dir [OF assms(1)] by (simp add: os_path_isdir_def)
  then show ?thesis
    using move_missing_source [OF assms(2), of depth b]
    by (simp add: perform_migration_def migration_steps_def Let_def logger_info_def logger_error_def)
qed

theorem second_migration_fails_witness:
  "fst (perform_migration 5 noon [''s''] [''b''] [''t''] (on_disk plain_home)) = Inr True \<and>
   lookup (disk (snd (perform_migration 5 noon [''s''] [''b''] [''t''] (on_disk plain_home)))) [''s''] = None \<and>
   fst (perform_migration 5 noon [''s''] [''b''] [''t'']
         (snd (perform_migration 5 noon [''s''] [''b''] [''t''] (on_disk plain_home)))) = Inr False \<and>
   disk (snd (perform_migration 5 noon [''s''] [''b''] [''t'']
         (snd (perform_migration 5 noon [''s''] [''b''] [''t''] (on_disk plain_home))))) =
   disk (snd (perform_migration 5 noon [''s''] [''b''] [''t''] (on_disk plain_home)))"
proof -
  have f: "fst (perform_migration 5 noon [''s''] [''b''] [''t''] (on_disk plain_home)) = Inr True"
    by code_simp
  have l: "lookup (disk (snd (perform_migration 5 noon [''s''] [''b''] [''t''] (on_disk plain_home)))) [''s''] = None"
    by code_simp
  from f have p: "perform_migration 5 noon [''s''] [''b''] [''t''] (on_disk plain_home) =
     (Inr True, snd (perform_migration 5 noon [''s''] [''b''] [''t''] (on_disk plain_home)))"
    by (metis prod.collapse)
  show ?thesis
    using f l second_migration_fails [OF p l, of noon] by simp
qed

text \<open>
  C5 as stated fails where the source directory holds an entry of its own name: the error
  of the second call names a path in the backup, not the missing source.
\<close>

theorem second_migration_error_counterexample:
  "fst (perform_migration 5 noon [''s''] [''b''] [''t''] (on_disk nested_home)) = Inr True \<and>
   lookup (disk (snd (perform_migration 5 noon [''s''] [''b''] [''t''] (on_disk nested_home)))) [''s''] = None \<and>
   log (snd (perform_migration 5 noon [''s''] [''b''] [''t'']
         (snd (perform_migration 5 noon [''s''] [''b''] [''t''] (on_disk nested_home))))) =
   log (snd (perform_migration 5 noon [''s''] [''b''] [''t''] (on_disk nested_home))) @
     [LogInfo ''Moving /s to /b'', LogError ''Migration failed: '' (Error_exists [''b'', ''s''])]"
  by code_simp

section \<open>The skip conditions of the orchestrator\<close>

lemma unrecognized_hash_no_match:
  assumes "os_path_exists fs s"
    and "lookup fs (s @ [''config'']) = Some (File bytes)" "utf8_valid bytes"
    and "loads bytes = Some (JObj items)"
    and "map_of items ''blockchain_preferred_block'' = Some (JObj b)"
    and "map_of b ''hash'' = Some h"
    and "h \<noteq> JStr FACT_MAINNET_GENESIS" "h \<noteq> JStr FACT_TESTNET_GENESIS"
  shows "is_factwallet_data loads fs s = Inr False"
  using assms
  by (auto simp: is_factwallet_data_def read_fingerprint_def open_read_def json_load_def
      os_path_exists_def)

text \<open>
  C7: called with a dictionary of options, \<open>check_for_migration\<close> returns without error,
  leaves the file system as it is and shows the user nothing (it only logs) under every
  skip condition: on Android; with a custom data directory outside portable mode; when
  the target directory exists, whatever the source holds; when there is no source
  directory; when the detector answers false, in particular when the source's
  configuration is a JSON object whose \<open>blockchain_preferred_block.hash\<close> is none of the
  known hashes.
\<close>

theorem check_for_migration_skips:
  assumes "''ANDROID_DATA'' \<in> set (environ e)
     \<or> (opts \<noteq> [] \<and> truthy (dict_get opts ''electrum_path'' PNone) \<and>
        \<not> truthy (dict_get opts ''portable'' (PBool False)))
     \<or> (\<exists>target source. locate_dirs e opts = Inr (target, source) \<and>
          (os_path_exists (disk w) target
           \<or> source = None
           \<or> (\<exists>s. source = Some s \<and>
                 (\<not> os_path_exists (disk w) s
                  \<or> is_factwallet_data loads (disk w) s = Inr False
                  \<or> (\<exists>bytes items b h.
                        lookup (disk w) (s @ [''config'']) = Some (File bytes) \<and> utf8_valid bytes \<and>
                        loads bytes = Some (JObj items) \<and>
                        map_of items ''blockchain_preferred_block'' = Some (JObj b) \<and>
                        map_of b ''hash'' = Some h \<and>
                        h \<noteq> JStr FACT_MAINNET_GENESIS \<and> h \<noteq> JStr FACT_TESTNET_GENESIS)))))"
  shows "\<exists>w'. check_for_migration loads depth when now user e (Some opts) w = (Inr (), w') \<and>
              disk w' = disk w \<and> ui w' = ui w"
proof -
  have h: "is_factwallet_data loads (disk w) s = Inr False"
    if "os_path_exists (disk w) s"
      "lookup (disk w) (s @ [''config'']) = Some (File bytes)" "utf8_valid bytes"
      "loads bytes = Some (JObj items)"
      "map_of items ''blockchain_preferred_block'' = Some (JObj b)"
      "map_of b ''hash'' = Some h"
      "h \<noteq> JStr FACT_MAINNET_GENESIS" "h \<noteq> JStr FACT_TESTNET_GENESIS"
    for s bytes items b h
    using that by (rule unrecognized_hash_no_match)
  show ?thesis
    using assms h
    by (fastforce simp: check_for_migration_def logger_info_def split: option.splits)
qed

theorem check_for_migration_skips_witness:
  "locate_dirs \<lparr>environ = [], user_dir = [''new''], old_user_dir = Some [''old'']\<rparr> [] =
     Inr ([''new''], Some [''old'']) \<and>
   (\<exists>w'. check_for_migration
            (\<lambda>s. Some (JObj [(''blockchain_preferred_block'', JObj [(''hash'', JStr ''00'')])]))
            5 noon noon Yes_migrate
            \<lparr>environ = [], user_dir = [''new''], old_user_dir = Some [''old'']\<rparr> (Some [])
            (on_disk (Dir [(''old'', Dir [(''config'', File ''{}'')])])) = (Inr (), w') \<and>
         disk w' = Dir [(''old'', Dir [(''config'', File ''{}'')])] \<and> ui w' = [])"
proof -
  let ?E = "\<lparr>environ = [], user_dir = [''new''], old_user_dir = Some [''old'']\<rparr>"
  let ?W = "on_disk (Dir [(''old'', Dir [(''config'', File ''{}'')])])"
  let ?L = "\<lambda>s::string. Some (JObj [(''blockchain_preferred_block'', JObj [(''hash'', JStr ''00'')])])"
  have l: "locate_dirs ?E [] = Inr ([''new''], Some [''old''])"
    by (simp add: locate_dirs_def dict_get_def)
  have c: "lookup (disk ?W) ([''old''] @ [''config'']) = Some (File ''{}'')"
    by (simp add: on_disk_def)
  have u: "utf8_valid ''{}''" by (simp add: in_range_def)
  have h: "JStr ''00'' \<noteq> JStr FACT_MAINNET_GENESIS \<and> JStr ''00'' \<noteq> JStr FACT_TESTNET_GENESIS"
    by (simp add: FACT_MAINNET_GENESIS_def FACT_TESTNET_GENESIS_def)
  have "\<exists>target source. locate_dirs ?E [] = Inr (target, source) \<and>
          (os_path_exists (disk ?W) target
           \<or> source = None
           \<or> (\<exists>s. source = Some s \<and>
                 (\<not> os_path_exists (disk ?W) s
                  \<or> is_factwallet_data ?L (disk ?W) s = Inr False
                  \<or> (\<exists>bytes items b h.
                        lookup (disk ?W) (s @ [''config'']) = Some (File bytes) \<and> utf8_valid bytes \<and>
                        ?L bytes = Some (JObj items) \<and>
                        map_of items ''blockchain_preferred_block'' = Some (JObj b) \<and>
                        map_of b ''hash'' = Some h \<and>
                        h \<noteq> JStr FACT_MAINNET_GENESIS \<and> h \<noteq> JStr FACT_TESTNET_GENESIS))))"
    apply (rule exI [of _ "[''new'']"], rule exI [of _ "Some [''old'']"])
    apply (rule conjI [OF l])
    apply (rule disjI2, rule disjI2, rule exI [of _ "[''old'']"], rule conjI [OF refl])
    apply (rule disjI2, rule disjI2)
    apply (rule exI [of _ "''{}''"], rule exI [of _ "[(''blockchain_preferred_block'', JObj [(''hash'', JStr ''00'')])]"])
    apply (rule exI [of _ "[(''hash'', JStr ''00'')]"], rule exI [of _ "JStr ''00''"])
    using c u h apply simp
    done
  then have "\<exists>w'. check_for_migration ?L 5 noon noon Yes_migrate ?E (Some []) ?W = (Inr (), w') \<and>
              disk w' = disk ?W \<and> ui w' = ui ?W"
    by (intro check_for_migration_skips disjI2)
  then show ?thesis using l by (simp add: on_disk_def)
qed

section \<open>What \<open>makedirs\<close> makes\<close>

lemma put_fresh_frame:
  assumes "lookup fs p = None \<or> \<not> is_dir (lookup fs p)" "\<And>r. r \<noteq> [] \<Longrightarrow> lookup n r = None" "\<not> prefix q p"
  shows "lookup (put p n fs) q = lookup fs q"
proof (cases "p \<noteq> [] \<and> is_dir (lookup fs (butlast p))")
  case False
  then have "put p n fs = fs" by (cases p) (auto simp: put_noop)
  then show ?thesis by simp
next
  case True
  show ?thesis
  proof (cases "prefix p q")
    case False
    then show ?thesis using assms(3) by (simp add: lookup_put_other)
  next
    case p: True
    then obtain r where r: "q = p @ r" "r \<noteq> []" using assms(3) by (auto simp: prefix_def)
    have "lookup (put p n fs) (p @ r) = None" using True assms(2) r(2) by (simp add: lookup_put_below)
    moreover have "lookup fs (p @ r) = None" using assms(1) r(2) by (rule lookup_below_not_dir)
    ultimately show ?thesis using r by simp
  qed
qed

lemma lookup_empty_dir: "r \<noteq> [] \<Longrightarrow> lookup (Dir []) r = None"
  by (cases r) auto

lemma not_prefix_butlast: "p \<noteq> [] \<Longrightarrow> \<not> prefix p (butlast p)"
proof
  assume "p \<noteq> []" "prefix p (butlast p)"
  from this(2) have "length p \<le> length (butlast p)" by (rule prefix_length_le)
  then show False using \<open>p \<noteq> []\<close> by (cases p rule: rev_cases) auto
qed

lemma os_mkdir_frame:
  assumes "\<not> prefix q p" shows "lookup (snd (os_mkdir p fs)) q = lookup fs q"
proof -
  have "lookup (put p (Dir []) fs) q = lookup fs q" if "lookup fs p = None"
    using that lookup_empty_dir assms by (intro put_fresh_frame) auto
  then show ?thesis by (auto simp: os_mkdir_def split: option.splits node.splits)
qed

lemma os_mkdir_state: "snd (os_mkdir p fs) = fs \<or> os_mkdir p fs = (Inr (), put p (Dir []) fs)"
  by (auto simp: os_mkdir_def split: option.splits node.splits)

lemma pass_FileExistsError:
  "snd (case x of (Inl (FileExistsError q), fs') \<Rightarrow> (Inr (), fs') | r \<Rightarrow> r) = snd x"
proof (cases x)
  case (Pair r f)
  show ?thesis
  proof (cases r)
    case (Inl e)
    then show ?thesis using Pair by (cases e) simp_all
  next
    case (Inr u)
    then show ?thesis using Pair by simp
  qed
qed

lemma makedirs_unfold:
  "makedirs p ok fs =
     (case parents_made p ok fs of
        (Inl e, fs1) \<Rightarrow> (Inl e, fs1)
      | (Inr u, fs1) \<Rightarrow>
          (case os_mkdir p fs1 of
             (Inl e, fs2) \<Rightarrow>
               if \<not> ok \<or> \<not> os_path_isdir fs2 p then (Inl e, fs2) else (Inr (), fs2)
           | (Inr u, fs2) \<Rightarrow> (Inr (), fs2)))"
  unfolding parents_made_def by (rule makedirs.simps)

lemma parents_made_state:
  "snd (parents_made p ok fs) = fs \<or> (p \<noteq> [] \<and> snd (parents_made p ok fs) = snd (makedirs (butlast p) ok fs))"
  unfolding parents_made_def by (simp add: pass_FileExistsError)

lemma makedirs_state:
  "snd (makedirs p ok fs) = snd (parents_made p ok fs) \<or>
   snd (makedirs p ok fs) = snd (os_mkdir p (snd (parents_made p ok fs)))"
proof -
  obtain rA fA where A: "parents_made p ok fs = (rA, fA)" by (cases "parents_made p ok fs")
  obtain r2 f2 where B: "os_mkdir p fA = (r2, f2)" by (cases "os_mkdir p fA")
  show ?thesis unfolding makedirs_unfold A using B by (cases rA; cases r2) auto
qed

lemma makedirs_frame: "\<not> prefix q p \<Longrightarrow> lookup (snd (makedirs p ok fs)) q = lookup fs q"
proof (induction p arbitrary: q rule: rev_induct)
  case Nil
  have "snd (parents_made [] ok fs) = fs" using parents_made_state [of "[]" ok fs] by simp
  then show ?case using makedirs_state [of "[]" ok fs] Nil os_mkdir_frame [of q "[]" fs] by auto
next
  case (snoc c p)
  have nq: "\<not> prefix q p" using snoc.prems by (meson prefix_order.trans prefixI)
  have ih: "lookup (snd (makedirs p ok fs)) q = lookup fs q" using nq by (rule snoc.IH)
  have a: "lookup (snd (parents_made (p @ [c]) ok fs)) q = lookup fs q"
    using parents_made_state [of "p @ [c]" ok fs] ih by auto
  have b: "lookup (snd (os_mkdir (p @ [c]) (snd (parents_made (p @ [c]) ok fs)))) q = lookup fs q"
    using os_mkdir_frame [OF snoc.prems] a by simp
  from makedirs_state [of "p @ [c]" ok fs] show ?case using a b by auto
qed


lemma makedirs_fresh:
  assumes "lookup fs p = None" "is_dir (lookup fs (butlast p))"
  shows "makedirs p ok fs = (Inr (), put p (Dir []) fs)"
proof -
  have "p \<noteq> []" using assms(1) by auto
  moreover have "os_path_exists fs (butlast p)"
    using assms(2) by (cases "lookup fs (butlast p)" rule: is_dir.cases) (auto simp: os_path_exists_def)
  ultimately have a: "parents_made p ok fs = (Inr (), fs)" by (simp add: parents_made_def)
  have b: "os_mkdir p fs = (Inr (), put p (Dir []) fs)"
    using assms by (cases "lookup fs (butlast p)" rule: is_dir.cases) (auto simp: os_mkdir_def)
  show ?thesis unfolding makedirs_unfold a using b by simp
qed

lemma makedirs_existing:
  assumes "is_dir (lookup fs p)" shows "makedirs p True fs = (Inr (), fs)"
proof -
  obtain es where l: "lookup fs p = Some (Dir es)"
    using assms by (cases "lookup fs p" rule: is_dir.cases) auto
  have "p \<noteq> [] \<longrightarrow> os_path_exists fs (butlast p)"
    using lookup_parent_dir [OF l]
    by (cases "lookup fs (butlast p)" rule: is_dir.cases) (auto simp: os_path_exists_def)
  then have a: "parents_made p True fs = (Inr (), fs)" by (auto simp: parents_made_def)
  have b: "os_mkdir p fs = (Inl (FileExistsError p), fs)" using l by (simp add: os_mkdir_def)
  show ?thesis unfolding makedirs_unfold a using b assms by (simp add: os_path_isdir_def)
qed

lemma makedirs_fresh_lookup:
  assumes "lookup fs p = None" "makedirs p ok fs = (Inr u, fs')"
  shows "lookup fs' p = Some (Dir [])"
proof -
  have ne: "p \<noteq> []" using assms(1) by auto
  obtain rA fs0 where A: "parents_made p ok fs = (rA, fs0)" by (cases "parents_made p ok fs")
  have np: "\<not> prefix p (butlast p)" using ne by (rule not_prefix_butlast)
  have "fs0 = fs \<or> fs0 = snd (makedirs (butlast p) ok fs)"
    using parents_made_state [of p ok fs] A by auto
  then have l0: "lookup fs0 p = None"
    using assms(1) np by (auto simp: makedirs_frame)
  obtain r2 f2 where B: "os_mkdir p fs0 = (r2, f2)" by (cases "os_mkdir p fs0")
  have st: "f2 = fs0 \<or> (r2 = Inr () \<and> f2 = put p (Dir []) fs0)"
    using os_mkdir_state [of p fs0] B by auto
  have "r2 = Inr () \<and> f2 = fs'"
  proof (cases r2)
    case (Inl e)
    then have "f2 = fs0" using st by auto
    then have "\<not> os_path_isdir f2 p" using l0 by (simp add: os_path_isdir_def)
    then show ?thesis using assms(2) Inl A B by (cases rA) (auto simp: makedirs_unfold)
  next
    case (Inr v)
    then show ?thesis using assms(2) A B by (cases rA) (auto simp: makedirs_unfold)
  qed
  then have m: "os_mkdir p fs0 = (Inr (), fs')" using B by simp
  then have "is_dir (lookup fs0 (butlast p))" "fs' = put p (Dir []) fs0"
    using l0 by (auto simp: os_mkdir_def split: option.splits node.splits)
  then show ?thesis using ne by (simp add: lookup_put_same)
qed

section \<open>The copy, entry by entry\<close>

lemma ignore_sockets_filter:
  "ignore_sockets fs dir files = filter (\<lambda>f. lookup fs (dir @ [f]) = Some Sock) files"
  by (induction files) (auto simp: os_stat_def S_ISSOCK_def split: option.splits node.splits)

lemma copy_loop_Cons:
  "copy_loop rec sy ig src dst ((name, kind) # entries) errs fs =
     (if name \<in> set ig then copy_loop rec sy ig src dst entries errs fs
      else (case copy_entry rec sy src dst name kind fs of
              (Inr u, fs') \<Rightarrow> copy_loop rec sy ig src dst entries errs fs'
            | (Inl e, fs') \<Rightarrow>
                if is_shutil_Error e
                then copy_loop rec sy ig src dst entries
                       (errs @ error_args e (src @ [name]) (dst @ [name])) fs'
                else if is_OSError e
                then copy_loop rec sy ig src dst entries
                       (errs @ [(src @ [name], dst @ [name])]) fs'
                else (Inl e, fs')))"
  by (simp add: copy_entry_def)

lemma copy2_dangling:
  "lookup fs s = Some Dangling \<Longrightarrow> copy2 s d fs = (Inl (FileNotFoundError s), fs)"
  by (auto simp: copy2_def copyfile_def open_read_def os_path_exists_def)

lemma update_fresh: "k \<notin> fst ` set al \<Longrightarrow> AList.update k v al = al @ [(k, v)]"
  by (induction al) auto

lemma copy2_file:
  assumes "lookup f s = Some (File b)" "lookup f t = None" "is_dir (lookup f (butlast t))"
  shows "copy2 s t f = (Inr (), put t (File b) f)"
proof -
  have "s \<noteq> t" using assms(1,2) by auto
  moreover have "\<not> os_path_isdir f t" using assms(2) by (simp add: os_path_isdir_def)
  moreover have "open_write t b f = (Inr (), put t (File b) f)"
    using assms(2,3) by (cases "lookup f (butlast t)" rule: is_dir.cases) (auto simp: open_write_def)
  ultimately show ?thesis using assms(1) by (simp add: copy2_def copyfile_def open_read_def)
qed

lemma copy2_sock:
  assumes "lookup f s = Some Sock" "lookup f t = None"
  shows "copy2 s t f = (Inl (OSError s), f)"
proof -
  have "s \<noteq> t" using assms by auto
  moreover have "\<not> os_path_isdir f t" using assms(2) by (simp add: os_path_isdir_def)
  ultimately show ?thesis using assms(1) by (simp add: copy2_def copyfile_def open_read_def)
qed

lemma symlink_fresh:
  assumes "lookup f t = None" "is_dir (lookup f (butlast t))"
  shows "os_symlink t f = (Inr (), put t Dangling f)"
  using assms by (cases "lookup f (butlast t)" rule: is_dir.cases) (auto simp: os_symlink_def)

lemma incomparable_child:
  assumes "\<not> prefix src dst" "\<not> prefix dst src"
  shows "\<not> prefix dst (src @ [k])" "\<not> prefix (src @ [k]) dst"
    "\<not> prefix (src @ [k]) (dst @ [k])" "\<not> prefix (dst @ [k]) (src @ [k])"
  using assms by (auto simp: prefix_snoc dest: append_prefixD)

lemma copy_loop_exact:
  assumes REC: "\<And>s t f sub r f'. lookup f s = Some (Dir sub) \<Longrightarrow> wf_tree (Dir sub) \<Longrightarrow>
        \<not> prefix s t \<Longrightarrow> \<not> prefix t s \<Longrightarrow> lookup f t = None \<Longrightarrow> is_dir (lookup f (butlast t)) \<Longrightarrow>
        rec s t f = (r, f') \<Longrightarrow>
        (r = Inl RecursionError \<and> d < height (Dir sub)) \<or>
        (r = outcome (uncopied sy ig s t sub) \<and> f' = put t (copied sy (Dir sub)) f)"
    and src: "lookup fs1 src = Some (Dir all)" and dist: "distinct (map fst all)"
    and inc: "\<not> prefix src dst" "\<not> prefix dst src"
    and dstdir: "is_dir (lookup fs1 dst)"
    and ign: "\<And>k n. (k, n) \<in> set all \<Longrightarrow> (k \<in> set ignored) = (ig \<and> n = Sock)"
  shows "set entries \<subseteq> set all \<Longrightarrow> wf_entries entries \<Longrightarrow> distinct (map fst entries) \<Longrightarrow>
         fst ` set acc \<inter> fst ` set entries = {} \<Longrightarrow>
         copy_loop rec sy ignored src dst entries errs (put dst (Dir acc) fs1) = (r, fs') \<Longrightarrow>
         (r = Inl RecursionError \<and> d < height_entries entries) \<or>
         (r = Inr (errs @ uncopied sy ig src dst entries) \<and>
          fs' = put dst (Dir (acc @ copied_entries sy entries)) fs1)"
proof (induction entries arbitrary: acc errs)
  case Nil
  then show ?case by simp
next
  case (Cons a rest)
  obtain k n where a: "a = (k, n)" by (cases a)
  define cur where "cur = put dst (Dir acc) fs1"
  have dne: "dst \<noteq> []" using inc(2) by auto
  have pd: "is_dir (lookup fs1 (butlast dst))"
    using dstdir dne by (cases "lookup fs1 dst" rule: is_dir.cases) (auto dest: lookup_parent_dir)
  have F1: "lookup cur dst = Some (Dir acc)" unfolding cur_def using dne pd by (rule lookup_put_same)
  have mem: "(k, n) \<in> set all" using Cons.prems(1) a by auto
  have mo: "map_of all k = Some n" using dist mem by (rule map_of_is_SomeI)
  have F0: "lookup cur src = Some (Dir all)"
    unfolding cur_def using lookup_put_other [OF inc(2) inc(1)] src by simp
  have F2: "lookup cur (src @ [k]) = Some n"
    using F0 mo by (simp add: lookup_snoc)
  have kacc: "k \<notin> fst ` set acc" using Cons.prems(4) a by auto
  have F3: "lookup cur (dst @ [k]) = None"
    using F1 kacc by (simp add: lookup_snoc map_of_eq_None_iff)
  have F3b: "is_dir (lookup cur (butlast (dst @ [k])))" using F1 by simp
  have F4: "put (dst @ [k]) m cur = put dst (Dir (acc @ [(k, m)])) fs1" for m
    using put_put_child [OF dne F1, of k m] kacc by (simp add: cur_def put_put_same update_fresh)
  have krest: "k \<notin> fst ` set rest" using Cons.prems(3) a by auto
  have sub: "set rest \<subseteq> set all" using Cons.prems(1) by auto
  have wfr: "wf_entries rest" and wfn: "wf_tree n" using Cons.prems(2) a by auto
  have dr: "distinct (map fst rest)" using Cons.prems(3) by auto
  have IHskip: "(r = Inl RecursionError \<and> d < height_entries rest) \<or>
         (r = Inr (e2 @ uncopied sy ig src dst rest) \<and>
          fs' = put dst (Dir (acc @ copied_entries sy rest)) fs1)"
    if "copy_loop rec sy ignored src dst rest e2 cur = (r, fs')" for e2
    using Cons.IH [OF sub wfr dr, of acc e2] Cons.prems(4) that unfolding cur_def by auto
  have IHadd: "(r = Inl RecursionError \<and> d < height_entries rest) \<or>
         (r = Inr (e2 @ uncopied sy ig src dst rest) \<and>
          fs' = put dst (Dir (acc @ (k, m) # copied_entries sy rest)) fs1)"
    if "copy_loop rec sy ignored src dst rest e2 (put (dst @ [k]) m cur) = (r, fs')" for e2 m
  proof -
    have "fst ` set (acc @ [(k, m)]) \<inter> fst ` set rest = {}"
      using Cons.prems(4) krest by auto
    then show ?thesis
      using Cons.IH [OF sub wfr dr, of "acc @ [(k, m)]" e2] that unfolding F4 by simp
  qed
  have loop: "copy_loop rec sy ignored src dst ((k, n) # rest) errs cur = (r, fs')"
    using Cons.prems(5) a cur_def by simp
  show ?case
  proof (cases "k \<in> set ignored")
    case True
    then have n: "ig" "n = Sock" using ign [OF mem] by auto
    have "copy_loop rec sy ignored src dst rest errs cur = (r, fs')"
      using loop True unfolding copy_loop_Cons by simp
    from IHskip [OF this] show ?thesis unfolding a using n by auto
  next
    case False
    then have nig: "\<not> (ig \<and> n = Sock)" using ign [OF mem] by auto
    show ?thesis
    proof (cases n)
      case (File b)
      have "copy_entry rec sy src dst k n cur = (Inr (), put (dst @ [k]) (File b) cur)"
        using F2 F3 F3b File by (simp add: copy_entry_def copy2_file)
      then have "copy_loop rec sy ignored src dst rest errs (put (dst @ [k]) (File b) cur) = (r, fs')"
        using loop False unfolding copy_loop_Cons by simp
      from IHadd [OF this] show ?thesis unfolding a using File by auto
    next
      case Sock
      have "copy_entry rec sy src dst k n cur = (Inl (OSError (src @ [k])), cur)"
        using F2 F3 Sock by (simp add: copy_entry_def copy2_sock)
      then have "copy_loop rec sy ignored src dst rest (errs @ [(src @ [k], dst @ [k])]) cur = (r, fs')"
        using loop False unfolding copy_loop_Cons by simp
      from IHskip [OF this] show ?thesis unfolding a using Sock nig by auto
    next
      case Dangling
      show ?thesis
      proof (cases sy)
        case True
        have "copy_entry rec sy src dst k n cur = (Inr (), put (dst @ [k]) Dangling cur)"
          using F3 F3b Dangling True by (simp add: copy_entry_def symlink_fresh)
        then have "copy_loop rec sy ignored src dst rest errs (put (dst @ [k]) Dangling cur) = (r, fs')"
          using loop False unfolding copy_loop_Cons by simp
        from IHadd [OF this] show ?thesis unfolding a using Dangling True by auto
      next
        case sy: False
        have "copy_entry rec sy src dst k n cur = (Inl (FileNotFoundError (src @ [k])), cur)"
          using F2 Dangling sy by (simp add: copy_entry_def copy2_dangling)
        then have "copy_loop rec sy ignored src dst rest (errs @ [(src @ [k], dst @ [k])]) cur = (r, fs')"
          using loop False unfolding copy_loop_Cons by simp
        from IHskip [OF this] show ?thesis unfolding a using Dangling sy by auto
      qed
    next
      case (Dir sub)
      obtain r1 f1 where R: "rec (src @ [k]) (dst @ [k]) cur = (r1, f1)"
        by (cases "rec (src @ [k]) (dst @ [k]) cur")
      have ce: "copy_entry rec sy src dst k n cur = (r1, f1)"
        using R Dir by (simp add: copy_entry_def)
      have "(r1 = Inl RecursionError \<and> d < height (Dir sub)) \<or>
        (r1 = outcome (uncopied sy ig (src @ [k]) (dst @ [k]) sub) \<and>
         f1 = put (dst @ [k]) (copied sy (Dir sub)) cur)"
        using REC [OF _ _ incomparable_child(3,4) [OF inc] F3 F3b R] F2 wfn Dir by simp
      then show ?thesis
      proof
        assume x: "r1 = Inl RecursionError \<and> d < height (Dir sub)"
        then have "r = Inl RecursionError" using loop False ce unfolding copy_loop_Cons by simp
        then show ?thesis unfolding a using x Dir by auto
      next
        assume x: "r1 = outcome (uncopied sy ig (src @ [k]) (dst @ [k]) sub) \<and>
         f1 = put (dst @ [k]) (copied sy (Dir sub)) cur"
        have "copy_loop rec sy ignored src dst rest
                (errs @ uncopied sy ig (src @ [k]) (dst @ [k]) sub)
                (put (dst @ [k]) (copied sy (Dir sub)) cur) = (r, fs')"
          using loop False ce x unfolding copy_loop_Cons
          by (cases "uncopied sy ig (src @ [k]) (dst @ [k]) sub = []") (auto simp: outcome_def)
        from IHadd [OF this] show ?thesis unfolding a using Dir by auto
      qed
    qed
  qed
qed

lemma ignore_sockets_names:
  assumes "lookup fs src = Some (Dir es)" "distinct (map fst es)" "(k, n) \<in> set es"
  shows "(k \<in> set (if ig then ignore_sockets fs src (map fst es) else [])) = (ig \<and> n = Sock)"
proof -
  have "map_of es k = Some n" using assms(2,3) by (rule map_of_is_SomeI)
  then have "lookup fs (src @ [k]) = Some n" using assms(1) by (simp add: lookup_snoc)
  moreover have "k \<in> set (map fst es)" using assms(3) by force
  ultimately show ?thesis by (auto simp: ignore_sockets_filter)
qed

lemma copytree_started:
  assumes REC: "\<And>s t f sub r f'. lookup f s = Some (Dir sub) \<Longrightarrow> wf_tree (Dir sub) \<Longrightarrow>
        \<not> prefix s t \<Longrightarrow> \<not> prefix t s \<Longrightarrow> lookup f t = None \<Longrightarrow> is_dir (lookup f (butlast t)) \<Longrightarrow>
        copytree d sy (if ig then Some ignore_sockets else None) ok s t f = (r, f') \<Longrightarrow>
        (r = Inl RecursionError \<and> d < height (Dir sub)) \<or>
        (r = outcome (uncopied sy ig s t sub) \<and> f' = put t (copied sy (Dir sub)) f)"
    and src: "lookup fs src = Some (Dir es)" and wf: "wf_tree (Dir es)"
    and inc: "\<not> prefix src dst" "\<not> prefix dst src"
    and mk: "makedirs dst ok fs = (Inr (), fs1)"
    and src1: "lookup fs1 src = Some (Dir es)"
    and dst1: "lookup fs1 dst = Some (Dir [])"
    and run: "copytree (Suc d) sy (if ig then Some ignore_sockets else None) ok src dst fs = (r, fs')"
  shows "(r = Inl RecursionError \<and> Suc d < height (Dir es)) \<or>
         (r = outcome (uncopied sy ig src dst es) \<and> fs' = put dst (copied sy (Dir es)) fs1)"
proof -
  define ignored where "ignored = (if ig then ignore_sockets fs src (map fst es) else [])"
  have ign: "(case (if ig then Some ignore_sockets else None) of None \<Rightarrow> []
               | Some f \<Rightarrow> f fs src (map fst es)) = ignored"
    by (simp add: ignored_def)
  obtain r2 fs2 where L: "copy_loop (copytree d sy (if ig then Some ignore_sockets else None) ok) sy
        ignored src dst es [] fs1 = (r2, fs2)"
    by (cases "copy_loop (copytree d sy (if ig then Some ignore_sockets else None) ok) sy
        ignored src dst es [] fs1")
  have dist: "distinct (map fst es)" and wfe: "wf_entries es" using wf by auto
  have start: "put dst (Dir []) fs1 = fs1" using dst1 by (rule put_triv)
  have names: "\<And>k n. (k, n) \<in> set es \<Longrightarrow> (k \<in> set ignored) = (ig \<and> n = Sock)"
    unfolding ignored_def using src dist by (rule ignore_sockets_names)
  have dd: "is_dir (lookup fs1 dst)" using dst1 by simp
  have L': "copy_loop (copytree d sy (if ig then Some ignore_sockets else None) ok) sy
        ignored src dst es [] (put dst (Dir []) fs1) = (r2, fs2)"
    using L start by simp
  have "(r2 = Inl RecursionError \<and> d < height_entries es) \<or>
        (r2 = Inr ([] @ uncopied sy ig src dst es) \<and>
         fs2 = put dst (Dir ([] @ copied_entries sy es)) fs1)"
    using REC src1 dist inc dd names _ wfe dist _ L'
    by (rule copy_loop_exact [where rec = "copytree d sy (if ig then Some ignore_sockets else None) ok"]) auto
  moreover have "(r, fs') = (case r2 of Inl e \<Rightarrow> (Inl e, fs2)
       | Inr errors \<Rightarrow> if errors \<noteq> [] then (Inl (Error_list errors), fs2) else (Inr (), fs2))"
    using run src mk L unfolding ign [symmetric] by (simp add: ign)
  ultimately show ?thesis by (auto simp: outcome_def)
qed

lemma copytree_exact:
  "lookup fs src = Some (Dir es) \<Longrightarrow> wf_tree (Dir es) \<Longrightarrow> \<not> prefix src dst \<Longrightarrow> \<not> prefix dst src \<Longrightarrow>
   lookup fs dst = None \<Longrightarrow> is_dir (lookup fs (butlast dst)) \<Longrightarrow>
   copytree depth sy (if ig then Some ignore_sockets else None) ok src dst fs = (r, fs') \<Longrightarrow>
   (r = Inl RecursionError \<and> depth < height (Dir es)) \<or>
   (r = outcome (uncopied sy ig src dst es) \<and> fs' = put dst (copied sy (Dir es)) fs)"
proof (induction depth arbitrary: fs src dst es r fs')
  case 0
  then show ?case by simp
next
  case (Suc d)
  have dne: "dst \<noteq> []" using Suc.prems(4) by auto
  have mk: "makedirs dst ok fs = (Inr (), put dst (Dir []) fs)"
    using Suc.prems(5,6) by (rule makedirs_fresh)
  have src1: "lookup (put dst (Dir []) fs) src = Some (Dir es)"
    using lookup_put_other [OF Suc.prems(4,3)] Suc.prems(1) by simp
  have dst1: "lookup (put dst (Dir []) fs) dst = Some (Dir [])"
    using dne Suc.prems(6) by (rule lookup_put_same)
  have "(r = Inl RecursionError \<and> Suc d < height (Dir es)) \<or>
         (r = outcome (uncopied sy ig src dst es) \<and>
          fs' = put dst (copied sy (Dir es)) (put dst (Dir []) fs))"
    using Suc.IH Suc.prems(1,2,3,4) mk src1 dst1 Suc.prems(7)
    by (rule copytree_started)
  then show ?case by (simp only: put_put_same)
qed

lemma copytree_into_empty:
  assumes "lookup fs src = Some (Dir es)" "wf_tree (Dir es)" "\<not> prefix src dst" "\<not> prefix dst src"
    "lookup fs dst = Some (Dir [])"
    "copytree depth sy (if ig then Some ignore_sockets else None) True src dst fs = (r, fs')"
  shows "(r = Inl RecursionError \<and> depth < height (Dir es)) \<or>
   (r = outcome (uncopied sy ig src dst es) \<and> fs' = put dst (copied sy (Dir es)) fs)"
proof (cases depth)
  case 0
  then show ?thesis using assms by simp
next
  case (Suc d)
  have mk: "makedirs dst True fs = (Inr (), fs)"
    using assms(5) by (intro makedirs_existing) simp
  have run: "copytree (Suc d) sy (if ig then Some ignore_sockets else None) True src dst fs = (r, fs')"
    using assms(6) Suc by simp
  have "(r = Inl RecursionError \<and> Suc d < height (Dir es)) \<or>
         (r = outcome (uncopied sy ig src dst es) \<and> fs' = put dst (copied sy (Dir es)) fs)"
    using copytree_exact assms(1,2,3,4) mk assms(1,5) run
    by (rule copytree_started)
  then show ?thesis using Suc by simp
qed


section \<open>The stages of the executor\<close>

lemma missing_not_above:
  assumes "lookup fs q = None" "lookup fs p = Some n" shows "\<not> prefix q p"
  using assms present_above [of q p fs] by auto

lemma move_renames:
  assumes S: "lookup fs src = Some (Dir es)" and B: "lookup fs b = None"
    and BP: "is_dir (lookup fs (butlast b))" and N: "\<not> prefix src b"
  shows "shutil_move depth src b fs = (Inr (), put b (Dir es) (remove src fs))"
proof -
  have nb: "\<not> prefix b src" using B S by (rule missing_not_above)
  have sne: "src \<noteq> []" and bne: "b \<noteq> []" and neq: "src \<noteq> b" using N nb by auto
  have nd: "\<not> os_path_isdir fs b" using B by (simp add: os_path_isdir_def)
  obtain ps where ps: "lookup fs (butlast b) = Some (Dir ps)"
    using BP by (cases "lookup fs (butlast b)" rule: is_dir.cases) auto
  have "os_rename src b fs = (Inr (), put b (Dir es) (remove src fs))"
    using S B ps sne bne neq N nb by (simp add: os_rename_def)
  then show ?thesis using nd by (simp add: shutil_move_def real_dst_def)
qed

lemma after_move:
  assumes S: "lookup fs src = Some (Dir es)" and B: "lookup fs b = None"
    and BP: "is_dir (lookup fs (butlast b))" and N: "\<not> prefix src b"
  shows "lookup (put b (Dir es) (remove src fs)) b = Some (Dir es)"
    and "lookup (put b (Dir es) (remove src fs)) src = None"
    and "\<not> prefix src q \<Longrightarrow> \<not> prefix b q \<Longrightarrow> lookup fs q = None \<Longrightarrow>
         lookup (put b (Dir es) (remove src fs)) q = None"
    and "\<not> prefix src q \<Longrightarrow> \<not> prefix b q \<Longrightarrow> is_dir (lookup fs q) \<Longrightarrow>
         is_dir (lookup (put b (Dir es) (remove src fs)) q)"
proof -
  have nb: "\<not> prefix b src" using B S by (rule missing_not_above)
  have sne: "src \<noteq> []" and bne: "b \<noteq> []" using N nb by auto
  have "\<not> prefix src (butlast b)" using N bne
    by (metis append_butlast_last_id prefix_order.trans prefixI)
  then have pd: "is_dir (lookup (remove src fs) (butlast b))" using BP by (simp add: is_dir_remove)
  show "lookup (put b (Dir es) (remove src fs)) b = Some (Dir es)"
    using bne pd by (rule lookup_put_same)
  have "lookup (remove src fs) (src @ []) = None" using sne by (rule lookup_remove_below)
  then show "lookup (put b (Dir es) (remove src fs)) src = None"
    using lookup_put_other [OF nb N] by simp
  have rb: "lookup (remove src fs) b = None"
    using lookup_remove_other [OF N nb] B by simp
  show "lookup (put b (Dir es) (remove src fs)) q = None"
    if q: "\<not> prefix src q" "\<not> prefix b q" "lookup fs q = None"
  proof -
    have qs: "\<not> prefix q src" using q(3) S by (rule missing_not_above)
    have r: "lookup (remove src fs) q = None"
      using lookup_remove_other [OF q(1) qs] q(3) by simp
    have "\<not> prefix q b"
    proof
      assume pq: "prefix q b"
      have "q \<noteq> b" using q(2) by auto
      then have "prefix q (butlast b)" using pq bne
        by (metis append_butlast_last_id prefix_snoc)
      moreover have "lookup fs (butlast b) \<noteq> None" using BP by (rule is_dir_present)
      ultimately have "lookup fs q \<noteq> None" by (rule present_above)
      then show False using q(3) by simp
    qed
    then show ?thesis using lookup_put_other [OF q(2)] r by simp
  qed
  show "is_dir (lookup (put b (Dir es) (remove src fs)) q)"
    if q: "\<not> prefix src q" "\<not> prefix b q" "is_dir (lookup fs q)"
  proof -
    have "is_dir (lookup (remove src fs) q)" using q(1,3) by (simp add: is_dir_remove)
    moreover have "kept (remove src fs) (put b (Dir es) (remove src fs))"
      using rb by (intro kept_put) simp
    ultimately show ?thesis by (rule kept_is_dir [rotated])
  qed
qed





section \<open>The result of a successful migration\<close>

lemma open_write_state:
  "open_write p bytes fs = (Inr u, fs') \<Longrightarrow> fs' = put p (File bytes) fs"
  by (auto simp: open_write_def split: option.splits node.splits if_splits)

text \<open>
  C1, amended. The source is a directory whose tree holds no name twice in a directory; the
  backup and the target do not exist before the call, and the parent of the backup is a
  directory; the backup and the target lie neither inside the source nor inside each other.
  When \<open>perform_migration\<close> returns \<open>True\<close>, the backup holds the tree of the source as it
  was, every entry of it, the sockets too; the target holds the regular files and the
  directories of that tree, at every depth, and no socket, and the marker file, which is
  put in the place of an entry of the source under the marker's name; the source path is
  gone; and the tree held no broken link.
\<close>

theorem successful_migration_result:
  assumes S: "lookup (disk w) src = Some (Dir es)" and wf: "wf_tree (Dir es)"
    and B: "lookup (disk w) b = None" and BP: "is_dir (lookup (disk w) (butlast b))"
    and T: "lookup (disk w) t = None"
    and N1: "\<not> prefix src b" and N2: "\<not> prefix src t"
    and N3: "\<not> prefix b t" and N4: "\<not> prefix t b"
    and ok: "perform_migration depth now src b t w = (Inr True, w')"
  shows "lookup (disk w') b = Some (Dir es) \<and>
         lookup (disk w') t =
           Some (Dir (AList.update marker_name (File (marker_text now src b t))
                        (copied_entries False es))) \<and>
         lookup (disk w') src = None \<and>
         uncopied False True b t es = []"
proof -
  define fs1 where "fs1 = put b (Dir es) (remove src (disk w))"
  have tne: "t \<noteq> []" using T by auto
  have nts: "\<not> prefix t src" using T S by (rule missing_not_above)
  have mv: "shutil_move depth src b (disk w) = (Inr (), fs1)"
    unfolding fs1_def using S B BP N1 by (rule move_renames)
  obtain r2 fs2 where mk: "make_dir t fs1 = (r2, fs2)" by (cases "make_dir t fs1")
  obtain rc fs3 where cp: "copytree depth False (Some ignore_sockets) True b t fs2 = (rc, fs3)"
    by (cases "copytree depth False (Some ignore_sockets) True b t fs2")
  obtain r4 fs4 where ow:
    "open_write (t @ [marker_name]) (marker_text now src b t) fs3 = (r4, fs4)"
    by (cases "open_write (t @ [marker_name]) (marker_text now src b t) fs3")
  have res: "r2 = Inr () \<and> rc = Inr () \<and> r4 = Inr () \<and> disk w' = fs4"
    using ok mv mk cp ow
    by (cases r2; cases rc; cases r4)
       (auto simp: perform_migration_def migration_steps_def Let_def logger_info_def)
  have b1: "lookup fs1 b = Some (Dir es)" unfolding fs1_def using S B BP N1 by (rule after_move(1))
  have s1: "lookup fs1 src = None" unfolding fs1_def using S B BP N1 by (rule after_move(2))
  have t1: "lookup fs1 t = None" unfolding fs1_def using S B BP N1 N2 N3 T by (rule after_move(3))
  have mk': "makedirs t True fs1 = (Inr (), fs2)" using mk res by (simp add: make_dir_def)
  have t2: "lookup fs2 t = Some (Dir [])" using t1 mk' by (rule makedirs_fresh_lookup)
  have frame: "lookup fs2 q = lookup fs1 q" if "\<not> prefix q t" for q
    using makedirs_frame [OF that, of True fs1] mk' by simp
  have b2: "lookup fs2 b = Some (Dir es)" using frame [OF N3] b1 by simp
  have s2: "lookup fs2 src = None" using frame [OF N2] s1 by simp
  have cp': "copytree depth False (if True then Some ignore_sockets else None) True b t fs2 = (rc, fs3)"
    using cp by simp
  have "(rc = Inl RecursionError \<and> depth < height (Dir es)) \<or>
        (rc = outcome (uncopied False True b t es) \<and> fs3 = put t (copied False (Dir es)) fs2)"
    using b2 wf N3 N4 t2 cp' by (rule copytree_into_empty)
  then have u: "uncopied False True b t es = []" and fs3: "fs3 = put t (copied False (Dir es)) fs2"
    using res by (auto simp: outcome_def split: if_splits)
  have tp2: "is_dir (lookup fs2 (butlast t))" using t2 tne by (rule lookup_parent_dir)
  have t3: "lookup fs3 t = Some (Dir (copied_entries False es))"
    unfolding fs3 using lookup_put_same [OF tne tp2] by simp
  have tp3: "is_dir (lookup fs3 (butlast t))" using t3 tne by (rule lookup_parent_dir)
  have b3: "lookup fs3 b = Some (Dir es)" unfolding fs3 using lookup_put_other [OF N4 N3] b2 by simp
  have s3: "lookup fs3 src = None" unfolding fs3 using lookup_put_other [OF nts N2] s2 by simp
  have "fs4 = put (t @ [marker_name]) (File (marker_text now src b t)) fs3"
    using ow res by (intro open_write_state) simp
  then have fs4: "fs4 = put t (Dir (AList.update marker_name (File (marker_text now src b t))
                        (copied_entries False es))) fs3"
    using put_put_child [OF tne t3] by simp
  have "lookup fs4 b = Some (Dir es)" unfolding fs4 using lookup_put_other [OF N4 N3] b3 by simp
  moreover have "lookup fs4 src = None" unfolding fs4 using lookup_put_other [OF nts N2] s3 by simp
  moreover have "lookup fs4 t = Some (Dir (AList.update marker_name (File (marker_text now src b t))
                        (copied_entries False es)))"
    unfolding fs4 using lookup_put_same [OF tne tp3] by simp
  ultimately show ?thesis using res u by simp
qed

theorem successful_migration_result_witness:
  "lookup (disk (on_disk plain_home)) [''s''] =
     Some (Dir [(''config'', File ''{}''), (''wallet'', File ''abc''), (''daemon'', Sock)]) \<and>
   wf_tree (Dir [(''config'', File ''{}''), (''wallet'', File ''abc''), (''daemon'', Sock)]) \<and>
   lookup (disk (on_disk plain_home)) [''b''] = None \<and>
   is_dir (lookup (disk (on_disk plain_home)) (butlast [''b''])) \<and>
   lookup (disk (on_disk plain_home)) [''t''] = None \<and>
   \<not> prefix [''s''] [''b''] \<and> \<not> prefix [''s''] [''t''] \<and>
   \<not> prefix [''b''] [''t''] \<and> \<not> prefix [''t''] [''b''] \<and>
   fst (perform_migration 5 noon [''s''] [''b''] [''t''] (on_disk plain_home)) = Inr True \<and>
   lookup (disk (snd (perform_migration 5 noon [''s''] [''b''] [''t''] (on_disk plain_home)))) [''b''] =
     Some (Dir [(''config'', File ''{}''), (''wallet'', File ''abc''), (''daemon'', Sock)]) \<and>
   lookup (disk (snd (perform_migration 5 noon [''s''] [''b''] [''t''] (on_disk plain_home)))) [''t''] =
     Some (Dir [(''config'', File ''{}''), (''wallet'', File ''abc''),
                (''.migrated_from_electrum'', File (marker_text noon [''s''] [''b''] [''t'']))]) \<and>
   lookup (disk (snd (perform_migration 5 noon [''s''] [''b''] [''t''] (on_disk plain_home)))) [''s''] = None"
proof -
  have h: "lookup (disk (on_disk plain_home)) [''s''] =
     Some (Dir [(''config'', File ''{}''), (''wallet'', File ''abc''), (''daemon'', Sock)])"
    "wf_tree (Dir [(''config'', File ''{}''), (''wallet'', File ''abc''), (''daemon'', Sock)])"
    "lookup (disk (on_disk plain_home)) [''b''] = None"
    "is_dir (lookup (disk (on_disk plain_home)) (butlast [''b'']))"
    "lookup (disk (on_disk plain_home)) [''t''] = None"
    "\<not> prefix [''s''] [''b'']" "\<not> prefix [''s''] [''t'']"
    "\<not> prefix [''b''] [''t'']" "\<not> prefix [''t''] [''b'']"
    by (simp_all add: on_disk_def plain_home_def)
  have f: "fst (perform_migration 5 noon [''s''] [''b''] [''t''] (on_disk plain_home)) = Inr True"
    by code_simp
  then have p: "perform_migration 5 noon [''s''] [''b''] [''t''] (on_disk plain_home) =
     (Inr True, snd (perform_migration 5 noon [''s''] [''b''] [''t''] (on_disk plain_home)))"
    by (metis prod.collapse)
  have c: "AList.update marker_name (File (marker_text noon [''s''] [''b''] [''t'']))
             (copied_entries False [(''config'', File ''{}''), (''wallet'', File ''abc''), (''daemon'', Sock)]) =
           [(''config'', File ''{}''), (''wallet'', File ''abc''),
            (''.migrated_from_electrum'', File (marker_text noon [''s''] [''b''] [''t'']))]"
    by (simp add: marker_name_def)
  from successful_migration_result [OF h p] show ?thesis
    unfolding c using h f by simp
qed

text \<open>
  C1 as stated fails on a target that exists before the call: \<open>make_dir\<close> and \<open>copytree\<close>
  accept it, and the file it held stays beside the files of the source. It fails too on a
  source that holds a file under the marker's name: the target holds the marker in its
  place, and so one file less than the source and the marker.
\<close>

theorem migration_into_occupied_target_counterexample:
  "fst (perform_migration 5 noon [''s''] [''b''] [''t''] (on_disk occupied_home)) = Inr True \<and>
   lookup (disk (snd (perform_migration 5 noon [''s''] [''b''] [''t''] (on_disk occupied_home)))) [''t''] =
     Some (Dir [(''old'', File ''x''), (''wallet'', File ''abc''),
                (''.migrated_from_electrum'',
                 File ''Migrated from `/s` (backup: `/b`) to `/t` on 2025-01-02T03:04:05'')]) \<and>
   fst (perform_migration 5 noon [''s''] [''b''] [''t''] (on_disk marked_home)) = Inr True \<and>
   lookup (disk (snd (perform_migration 5 noon [''s''] [''b''] [''t''] (on_disk marked_home)))) [''t''] =
     Some (Dir [(''.migrated_from_electrum'',
                 File ''Migrated from `/s` (backup: `/b`) to `/t` on 2025-01-02T03:04:05''),
                (''wallet'', File ''abc'')])"
  by code_simp

section \<open>Sockets and broken links in the copy\<close>




end
